theory Spec2Isabelle
  imports Complex_Main
begin

section \<open>Perihelion statistics of subhalos: the model of \<open>n_plot.py\<close>\<close>

text \<open>
  The script works on numpy arrays of float64. Here an array is a list and a float is a
  \<^typ>\<open>real\<close>: rounding, infinities and NaN are not modelled, and a division by zero has
  HOL's value 0 where numpy gives \<open>inf\<close> or \<open>nan\<close>.

  The merger-tree table is loaded as one rectangular array and cut into the columns
  \<open>tree_ids, tree_snaps, scales, xs, ys, zs, rs, ms\<close>. A \<open>Halo\<close> holds slices
  \<open>xs[start:end]\<close>, ... of these columns; a numpy slice is a view, so that writing
  \<open>self.xs[k]\<close> writes the shared column at \<open>start + k\<close>. The table is therefore the
  store: a list of rows, and a halo keeps the bounds of its slice.
\<close>

datatype error = IndexError | ValueError | TypeError | KeyError | AttributeError

subsection \<open>Configuration constants\<close>

definition L :: real where
  "L = 250"

definition r_max_scale :: real where
  "r_max_scale = 1.0"

definition r_sp_scale :: real where
  "r_sp_scale = 1.0"

definition r200m_scale :: real where
  "r200m_scale = 1.0"

definition r200c_scale :: real where
  "r200c_scale = 1.0"

definition SUBHALO_LIM :: nat where
  "SUBHALO_LIM = 40"

subsection \<open>Python indexing\<close>

definition py_get :: "'a list \<Rightarrow> int \<Rightarrow> error + 'a" where
  \<comment> \<open>\<open>a[i]\<close>: a negative index counts from the end, out of range raises.\<close>
  "py_get a i =
     (let n = int (length a); j = (if i < 0 then n + i else i)
      in if 0 \<le> j \<and> j < n then Inr (a ! nat j) else Inl IndexError)"

definition neg_index :: "nat \<Rightarrow> nat \<Rightarrow> nat" where
  \<comment> \<open>the position that \<open>a[-i]\<close> reads in an array of length \<open>n\<close>, for \<open>i < n\<close>:
      \<open>-0\<close> is \<open>0\<close>, the first element.\<close>
  "neg_index n i = (if i = 0 then 0 else n - i)"

definition slice :: "'a list \<Rightarrow> nat \<Rightarrow> nat \<Rightarrow> 'a list" where
  \<comment> \<open>\<open>a[start:end]\<close> for non-negative bounds\<close>
  "slice a start stop = take (stop - start) (drop start a)"

definition last_n :: "'a list \<Rightarrow> nat \<Rightarrow> 'a list" where
  \<comment> \<open>\<open>a[-l:]\<close>: the last \<open>l\<close> elements, and the whole array when \<open>l = 0\<close>\<close>
  "last_n a l = (if l = 0 then a else drop (length a - l) a)"

subsection \<open>The tree table and the halos\<close>

record row =
  r_id :: int
  r_snap :: int
  r_scale :: real
  r_x :: real
  r_y :: real
  r_z :: real
  r_r :: real
  r_m :: real

type_synonym table = "row list"

datatype axis = X | Y | Z

fun coord :: "axis \<Rightarrow> row \<Rightarrow> real" where
  "coord X w = r_x w"
| "coord Y w = r_y w"
| "coord Z w = r_z w"

fun set_coord :: "axis \<Rightarrow> real \<Rightarrow> row \<Rightarrow> row" where
  "set_coord X v w = w\<lparr>r_x := v\<rparr>"
| "set_coord Y v w = w\<lparr>r_y := v\<rparr>"
| "set_coord Z v w = w\<lparr>r_z := v\<rparr>"

text \<open>The attributes that \<open>displace\<close> sets on a subhalo. \<open>host_rs\<close> is \<open>host.rs\<close> itself,
  not a copy: the bounds of the host's slice of the radius column.\<close>

record displaced =
  ds :: "real list"
  phis :: "real list"
  ths :: "real list"
  host_rs :: "nat \<times> nat"
  vxs :: "real list"
  vys :: "real list"
  vzs :: "real list"
  vs :: "real list"
  vrs :: "real list"

text \<open>The attributes that the membership loop sets on a host.\<close>

record host_rad =
  m_sp :: real
  r_sp :: real
  r_min :: real
  r_max :: real
  r200m :: real
  gamma :: real
  m200c :: real
  r200c :: real
  m_id :: "int option"

text \<open>A halo object. \<open>subs\<close> holds references to halo objects: their keys in \<open>hs\<close>.\<close>

record Halo =
  halo_id :: int
  h_start :: nat
  h_end :: nat
  ts :: "real list"
  subs :: "int list"
  disp :: "displaced option"
  rad :: "host_rad option"

definition Halo_rows :: "table \<Rightarrow> Halo \<Rightarrow> row list" where
  "Halo_rows tr h = slice tr (h_start h) (h_end h)"

definition Halo_scales :: "table \<Rightarrow> Halo \<Rightarrow> real list" where
  "Halo_scales tr h = map r_scale (Halo_rows tr h)"

definition Halo_pos :: "axis \<Rightarrow> table \<Rightarrow> Halo \<Rightarrow> real list" where
  "Halo_pos ax tr h = map (coord ax) (Halo_rows tr h)"

abbreviation Halo_xs :: "table \<Rightarrow> Halo \<Rightarrow> real list" where
  "Halo_xs \<equiv> Halo_pos X"

abbreviation Halo_ys :: "table \<Rightarrow> Halo \<Rightarrow> real list" where
  "Halo_ys \<equiv> Halo_pos Y"

abbreviation Halo_zs :: "table \<Rightarrow> Halo \<Rightarrow> real list" where
  "Halo_zs \<equiv> Halo_pos Z"

definition Halo_rs :: "table \<Rightarrow> Halo \<Rightarrow> real list" where
  "Halo_rs tr h = map r_r (Halo_rows tr h)"

definition Halo_ms :: "table \<Rightarrow> Halo \<Rightarrow> real list" where
  "Halo_ms tr h = map r_m (Halo_rows tr h)"

definition Halo_init :: "(real \<Rightarrow> real) \<Rightarrow> table \<Rightarrow> nat \<Rightarrow> nat \<Rightarrow> error + Halo" where
  \<comment> \<open>\<open>age\<close> is \<open>cosmo.age\<close> of the cosmology library\<close>
  "Halo_init age tr start stop =
     (case py_get (map r_id tr) (int stop - 1) of
        Inl e \<Rightarrow> Inl e
      | Inr i \<Rightarrow> Inr \<lparr>halo_id = i, h_start = start, h_end = stop,
                     ts = map (\<lambda>a. age (1 / a - 1)) (map r_scale (slice tr start stop)),
                     subs = [], disp = None, rad = None\<rparr>)"

subsection \<open>\<open>Halo.displace\<close>\<close>

definition wrap_sub :: "axis \<Rightarrow> table \<Rightarrow> nat \<Rightarrow> nat \<Rightarrow> table" where
  \<comment> \<open>the three statements on one coordinate, \<open>s\<close> and \<open>h\<close> the rows that
      \<open>self.xs[-i]\<close> and \<open>host.xs[-i]\<close> name\<close>
  "wrap_sub ax tr s h =
     (let t1 = tr[s := set_coord ax (coord ax (tr ! s) - coord ax (tr ! h)) (tr ! s)];
          t2 = (if coord ax (t1 ! s) > L / 2
                then t1[s := set_coord ax (coord ax (t1 ! s) - L) (t1 ! s)] else t1);
          t3 = (if coord ax (t2 ! s) < - L / 2
                then t2[s := set_coord ax (coord ax (t2 ! s) + L) (t2 ! s)] else t2)
      in t3)"

definition displace_body :: "Halo \<Rightarrow> Halo \<Rightarrow> nat \<Rightarrow> nat \<Rightarrow> table \<Rightarrow> nat \<Rightarrow> table" where
  \<comment> \<open>one turn of the loop; \<open>n\<close> and \<open>k\<close> are the lengths of the two slices\<close>
  "displace_body self host n k tr i =
     (let s = h_start self + neg_index n i; h = h_start host + neg_index k i
      in wrap_sub Z (wrap_sub Y (wrap_sub X tr s h) s h) s h)"

definition displace_loop :: "table \<Rightarrow> Halo \<Rightarrow> Halo \<Rightarrow> table" where
  "displace_loop tr self host =
     (let n = length (Halo_rows tr self); k = length (Halo_rows tr host)
      in foldl (displace_body self host n k) tr [0..<min n k])"

definition arctan2 :: "real \<Rightarrow> real \<Rightarrow> real" where
  "arctan2 y x =
     (if x > 0 then arctan (y / x)
      else if x < 0 \<and> y \<ge> 0 then arctan (y / x) + pi
      else if x < 0 then arctan (y / x) - pi
      else if y > 0 then pi / 2
      else if y < 0 then - pi / 2
      else 0)"

definition np_map2 :: "(real \<Rightarrow> real \<Rightarrow> real) \<Rightarrow> real list \<Rightarrow> real list
    \<Rightarrow> error + real list" where
  \<comment> \<open>a binary operation on one-dimensional arrays: elementwise, an array of length 1 is
      broadcast, other shapes raise\<close>
  "np_map2 f a b =
     (if length a = length b then Inr (map2 f a b)
      else if length a = 1 then Inr (map (\<lambda>y. f (hd a) y) b)
      else if length b = 1 then Inr (map (\<lambda>x. f x (hd b)) a)
      else Inl ValueError)"

definition velocity :: "(real list \<Rightarrow> real list \<Rightarrow> real list) \<Rightarrow> real list \<Rightarrow> real list
    \<Rightarrow> real list \<Rightarrow> error + real list" where
  \<comment> \<open>\<open>deriv.vector_deriv(self.ts, q) * self.scales * 31.54\<close>\<close>
  "velocity vector_deriv t q sc =
     (case np_map2 (*) (vector_deriv t q) sc of
        Inl e \<Rightarrow> Inl e
      | Inr v \<Rightarrow> Inr (map (\<lambda>x. x * 31.54) v))"

definition displace :: "(real list \<Rightarrow> real list \<Rightarrow> real list) \<Rightarrow> table \<Rightarrow> Halo \<Rightarrow> Halo
    \<Rightarrow> table \<times> (error + Halo)" where
  \<comment> \<open>\<open>vector_deriv\<close> is \<open>deriv.vector_deriv\<close>, a module that is not part of the source.
      The result is the table after the loop and the subhalo with its new attributes,
      or the exception raised after the loop.\<close>
  "displace vector_deriv tr self host =
     (let tr' = displace_loop tr self host;
          x = Halo_xs tr' self; y = Halo_ys tr' self; z = Halo_zs tr' self;
          sc = Halo_scales tr' self;
          d = map (\<lambda>w. sqrt ((r_x w)\<^sup>2 + (r_y w)\<^sup>2 + (r_z w)\<^sup>2)) (Halo_rows tr' self);
          ph = map2 (\<lambda>a b. arccos (a / b)) z d;
          th = map2 arctan2 y x
      in (tr',
          case velocity vector_deriv (ts self) x sc of Inl e \<Rightarrow> Inl e | Inr vx \<Rightarrow>
          case velocity vector_deriv (ts self) y sc of Inl e \<Rightarrow> Inl e | Inr vy \<Rightarrow>
          case velocity vector_deriv (ts self) z sc of Inl e \<Rightarrow> Inl e | Inr vz \<Rightarrow>
          case np_map2 (\<lambda>a b. a\<^sup>2 + b\<^sup>2) vx vy of Inl e \<Rightarrow> Inl e | Inr p \<Rightarrow>
          case np_map2 (\<lambda>a b. a + b\<^sup>2) p z of Inl e \<Rightarrow> Inl e | Inr q \<Rightarrow>
          case velocity vector_deriv (ts self) d sc of Inl e \<Rightarrow> Inl e | Inr vr \<Rightarrow>
            Inr (self\<lparr>disp := Some \<lparr>ds = d, phis = ph, ths = th,
                                     host_rs = (h_start host, h_end host),
                                     vxs = vx, vys = vy, vzs = vz,
                                     vs = map sqrt q, vrs = map abs vr\<rparr>\<rparr>)))"

subsection \<open>\<open>Halo.perihelion\<close>\<close>

fun argmin :: "real list \<Rightarrow> nat" where
  \<comment> \<open>\<open>np.argmin\<close>: the first position of the least element; the caller excludes the
      empty array, on which numpy raises\<close>
  "argmin [] = 0"
| "argmin [x] = 0"
| "argmin (x # y # r) = (let j = argmin (y # r) in if x \<le> (y # r) ! j then 0 else Suc j)"

definition Halo_host_rs :: "table \<Rightarrow> displaced \<Rightarrow> real list" where
  \<comment> \<open>reading \<open>self.host_rs\<close>: the host's slice of the radius column, as it is now\<close>
  "Halo_host_rs tr d = map r_r (slice tr (fst (host_rs d)) (snd (host_rs d)))"

definition perihelion :: "table \<Rightarrow> Halo \<Rightarrow> error + (real \<times> real \<times> real \<times> real \<times> real)" where
  "perihelion tr self =
     (case disp self of
        None \<Rightarrow> Inl AttributeError
      | Some d \<Rightarrow>
          let l = min (length (ds d)) (length (Halo_host_rs tr d));
              w = last_n (ds d) l
          in if w = [] then Inl ValueError
             else
               let i = argmin w; hi = int i - int l
               in case py_get (ds d) hi of Inl e \<Rightarrow> Inl e | Inr dp \<Rightarrow>
                  case py_get (Halo_host_rs tr d) hi of Inl e \<Rightarrow> Inl e | Inr hr \<Rightarrow>
                  case py_get (phis d) hi of Inl e \<Rightarrow> Inl e | Inr ph \<Rightarrow>
                  case py_get (ths d) hi of Inl e \<Rightarrow> Inl e | Inr th \<Rightarrow>
                  case py_get (ts self) hi of Inl e \<Rightarrow> Inl e | Inr t \<Rightarrow>
                    Inr (dp, dp / hr, ph, th, t))"

subsection \<open>Building the halos and the membership\<close>

fun build_loop :: "(real \<Rightarrow> real) \<Rightarrow> table \<Rightarrow> nat list \<Rightarrow> nat \<Rightarrow> (int \<rightharpoonup> Halo)
    \<Rightarrow> error + nat \<times> (int \<rightharpoonup> Halo)" where
  "build_loop age tr [] start hs = Inr (start, hs)"
| "build_loop age tr (i # r) start hs =
     (if r_id (tr ! i) = - 1
      then case Halo_init age tr start i of
             Inl e \<Rightarrow> Inl e
           | Inr h \<Rightarrow> build_loop age tr r (i + 1) (hs(halo_id h \<mapsto> h))
      else build_loop age tr r start hs)"

definition build_halos :: "(real \<Rightarrow> real) \<Rightarrow> table \<Rightarrow> error + (int \<rightharpoonup> Halo)" where
  "build_halos age tr =
     (case build_loop age tr [0..<length tr] 0 Map.empty of
        Inl e \<Rightarrow> Inl e
      | Inr (start, hs) \<Rightarrow>
          (case Halo_init age tr start (length tr) of
             Inl e \<Rightarrow> Inl e
           | Inr h \<Rightarrow> Inr (hs(halo_id h \<mapsto> h))))"

type_synonym rad_entry = "real \<times> real \<times> real \<times> real \<times> real \<times> real \<times> real"

definition R200c :: "real \<Rightarrow> real \<Rightarrow> real" where
  \<comment> \<open>the value stored in \<open>hs[id].r200c\<close>; \<open>rho_c0\<close> is \<open>cosmo.rho_c(0)\<close>\<close>
  "R200c rho_c0 m = (m / ((rho_c0 * 200) * 10 ^ 9 * 4 * pi / 3)) powr 0.333"

definition member_step :: "real \<Rightarrow> (int \<rightharpoonup> rad_entry) \<Rightarrow> int list \<times> (int \<rightharpoonup> Halo)
    \<Rightarrow> int \<times> int \<Rightarrow> error + int list \<times> (int \<rightharpoonup> Halo)" where
  \<comment> \<open>one row \<open>(s_ids[i], h_ids[i])\<close> of the membership table\<close>
  "member_step rho_c0 rad_info st p =
     (case (st, p) of ((hosts, hs), (sid, hid)) \<Rightarrow>
        if sid = hid
        then case hs sid of
               None \<Rightarrow> Inl KeyError
             | Some h \<Rightarrow>
                 (case rad_info sid of
                    None \<Rightarrow> Inl KeyError
                  | Some (msp, rsp, rmin, rmax, r2m, m2c, gam) \<Rightarrow>
                      Inr (hosts @ [sid],
                           hs(sid \<mapsto> h\<lparr>rad := Some \<lparr>m_sp = msp, r_sp = rsp, r_min = rmin,
                                r_max = rmax, r200m = r2m, gamma = gam, m200c = m2c,
                                r200c = R200c rho_c0 m2c, m_id = None\<rparr>\<rparr>)))
        else case hs hid of
               None \<Rightarrow> Inl KeyError
             | Some hh \<Rightarrow>
                 (case hs sid of
                    None \<Rightarrow> Inl KeyError
                  | Some _ \<Rightarrow> Inr (hosts, hs(hid \<mapsto> hh\<lparr>subs := subs hh @ [sid]\<rparr>))))"

fun member_loop :: "real \<Rightarrow> (int \<rightharpoonup> rad_entry) \<Rightarrow> int list \<times> (int \<rightharpoonup> Halo)
    \<Rightarrow> (int \<times> int) list \<Rightarrow> error + int list \<times> (int \<rightharpoonup> Halo)" where
  "member_loop rho_c0 rad_info st [] = Inr st"
| "member_loop rho_c0 rad_info st (p # r) =
     (case member_step rho_c0 rad_info st p of
        Inl e \<Rightarrow> Inl e
      | Inr st' \<Rightarrow> member_loop rho_c0 rad_info st' r)"

subsection \<open>The loop over the hosts\<close>

record state =
  tree :: table
  hs :: "int \<rightharpoonup> Halo"
  b_r_sp :: "real list list"
  b_r_max :: "real list list"
  b_r200m :: "real list list"
  b_r200c :: "real list list"
  edges :: "real list option"
  sub_counts :: "nat list"

definition vol :: "real \<Rightarrow> real" where
  "vol r = 4 * pi / 3 * r ^ 3"

definition bin_edges :: "nat \<Rightarrow> real \<Rightarrow> real \<Rightarrow> real list" where
  \<comment> \<open>the edges that \<open>np.histogram\<close> returns: \<open>np.linspace(lo, hi, bins + 1)\<close>\<close>
  "bin_edges bins lo hi = map (\<lambda>k. lo + real k * ((hi - lo) / real bins)) [0..<Suc bins]"

definition histogram :: "real list \<Rightarrow> nat \<Rightarrow> real \<Rightarrow> real \<Rightarrow> nat list \<times> real list" where
  \<comment> \<open>\<open>np.histogram(a, bins=bins, range=(lo, hi))\<close> as numpy documents it: equal bins, each
      half-open but the last, which is closed; values outside the range are dropped\<close>
  "histogram a bins lo hi =
     (let e = bin_edges bins lo hi
      in (map (\<lambda>k. length (filter (\<lambda>v. e ! k \<le> v \<and>
                        (if Suc k = bins then v \<le> e ! Suc k else v < e ! Suc k)) a)) [0..<bins],
          e))"

definition eps_eq :: "real \<Rightarrow> real \<Rightarrow> bool" where
  "eps_eq x y = (let eps = 0.01 in \<bar>x - y\<bar> < eps)"

definition mask_of :: "real list \<Rightarrow> real list \<Rightarrow> real list \<Rightarrow> bool list" where
  \<comment> \<open>\<open>(~eps_eq(xps, xs)) & (xps < 1) & (ds > 0)\<close>, on arrays of one length\<close>
  "mask_of xps xs0 ds0 =
     map (\<lambda>(xp, x, d). (\<not> eps_eq xp x) \<and> xp < 1 \<and> d > 0) (zip xps (zip xs0 ds0))"

definition select :: "'a list \<Rightarrow> bool list \<Rightarrow> 'a list" where
  \<comment> \<open>\<open>a[mask]\<close>\<close>
  "select a msk = map fst (filter snd (zip a msk))"

definition profile :: "nat list \<Rightarrow> real list \<Rightarrow> nat \<Rightarrow> real list" where
  \<comment> \<open>\<open>vals / (vol(edges[1:]) - vol(edges[:-1])) / n\<close>\<close>
  "profile vals e n =
     map2 (\<lambda>v s. real v / s / real n) vals (map2 (-) (map vol (tl e)) (map vol (butlast e)))"

definition displace_sub :: "(real list \<Rightarrow> real list \<Rightarrow> real list) \<Rightarrow> int \<Rightarrow> state \<Rightarrow> int
    \<Rightarrow> error + state" where
  \<comment> \<open>\<open>sub.displace(host)\<close> on the objects that the two references name\<close>
  "displace_sub vector_deriv hid st sid =
     (case hs st hid of None \<Rightarrow> Inl KeyError | Some host \<Rightarrow>
      case hs st sid of None \<Rightarrow> Inl KeyError | Some sub \<Rightarrow>
        (case displace vector_deriv (tree st) sub host of
           (tr', Inl e) \<Rightarrow> Inl e
         | (tr', Inr sub') \<Rightarrow> Inr (st\<lparr>tree := tr', hs := (hs st)(sid \<mapsto> sub')\<rparr>)))"

fun displace_subs :: "(real list \<Rightarrow> real list \<Rightarrow> real list) \<Rightarrow> int \<Rightarrow> state \<Rightarrow> int list
    \<Rightarrow> error + state" where
  "displace_subs vector_deriv hid st [] = Inr st"
| "displace_subs vector_deriv hid st (sid # r) =
     (case displace_sub vector_deriv hid st sid of
        Inl e \<Rightarrow> Inl e
      | Inr st' \<Rightarrow> displace_subs vector_deriv hid st' r)"

definition collect_sub :: "state \<Rightarrow> int
    \<Rightarrow> error + (real \<times> real \<times> real \<times> real \<times> real \<times> real)" where
  \<comment> \<open>one turn of the second loop: what is appended to \<open>ds, dps, xps, phis, ths, ts\<close>\<close>
  "collect_sub st sid =
     (case hs st sid of None \<Rightarrow> Inl KeyError | Some sub \<Rightarrow>
      case perihelion (tree st) sub of Inl e \<Rightarrow> Inl e | Inr (dp, xp, _, _, t) \<Rightarrow>
      case disp sub of None \<Rightarrow> Inl AttributeError | Some d \<Rightarrow>
      case py_get (ds d) (- 1) of Inl e \<Rightarrow> Inl e | Inr d_now \<Rightarrow>
      case py_get (phis d) (- 1) of Inl e \<Rightarrow> Inl e | Inr ph_now \<Rightarrow>
      case py_get (ths d) (- 1) of Inl e \<Rightarrow> Inl e | Inr th_now \<Rightarrow>
        Inr (d_now, dp, xp, ph_now, th_now, t))"

fun collect :: "state \<Rightarrow> int list
    \<Rightarrow> error + (real \<times> real \<times> real \<times> real \<times> real \<times> real) list" where
  "collect st [] = Inr []"
| "collect st (sid # r) =
     (case collect_sub st sid of
        Inl e \<Rightarrow> Inl e
      | Inr c \<Rightarrow> (case collect st r of Inl e \<Rightarrow> Inl e | Inr cs \<Rightarrow> Inr (c # cs)))"

definition host_profile :: "real list \<Rightarrow> bool list \<Rightarrow> nat \<Rightarrow> real \<Rightarrow> real \<Rightarrow> real list \<Rightarrow> real list" where
  \<comment> \<open>the histogram of \<open>(ds / radius * scale)[mask]\<close> over \<open>(0.1, 2)\<close> in 25 bins, as a
      profile on the edges \<open>e\<close>\<close>
  "host_profile ds0 msk n radius scale e =
     profile (fst (histogram (select (map (\<lambda>d. d / radius * scale) ds0) msk) 25 0.1 2)) e n"

definition host_mask :: "state \<Rightarrow> int \<Rightarrow> error + (Halo \<times> real list \<times> bool list)" where
  \<comment> \<open>the second loop over \<open>host.subs\<close>, \<open>xs = ds / host.rs[-1]\<close> and the mask: the host,
      the present-day distances \<open>ds\<close> and the mask\<close>
  "host_mask st hid =
     (case hs st hid of None \<Rightarrow> Inl KeyError | Some host \<Rightarrow>
      case collect st (subs host) of Inl e \<Rightarrow> Inl e | Inr cs \<Rightarrow>
      case py_get (Halo_rs (tree st) host) (- 1) of Inl e \<Rightarrow> Inl e | Inr rl \<Rightarrow>
        let ds0 = map fst cs;
            xps = map (\<lambda>c. fst (snd (snd c))) cs;
            xs0 = map (\<lambda>d. d / rl) ds0
        in Inr (host, ds0, mask_of xps xs0 ds0))"

definition host_step :: "(real list \<Rightarrow> real list \<Rightarrow> real list) \<Rightarrow> state \<Rightarrow> int
    \<Rightarrow> error + state" where
  "host_step vector_deriv st hid =
     (case hs st hid of None \<Rightarrow> Inl KeyError | Some host0 \<Rightarrow>
      case displace_subs vector_deriv hid st (subs host0) of Inl e \<Rightarrow> Inl e | Inr st1 \<Rightarrow>
      case host_mask st1 hid of Inl e \<Rightarrow> Inl e | Inr (host, ds0, msk) \<Rightarrow>
        let n = length (filter id msk);
            st2 = st1\<lparr>sub_counts := sub_counts st1 @ [n]\<rparr>
        in if n > SUBHALO_LIM
           then case rad host of
                  None \<Rightarrow> Inl AttributeError
                | Some ra \<Rightarrow>
                    let e = snd (histogram (select (map (\<lambda>d. d / r_sp ra * r_sp_scale) ds0) msk)
                                   25 0.1 2)
                    in Inr (st2\<lparr>edges := Some e,
                         b_r_sp := b_r_sp st2 @ [host_profile ds0 msk n (r_sp ra) r_sp_scale e],
                         b_r_max := b_r_max st2 @ [host_profile ds0 msk n (r_max ra) r_max_scale e],
                         b_r200m := b_r200m st2 @ [host_profile ds0 msk n (r200m ra) r200m_scale e],
                         b_r200c := b_r200c st2 @ [host_profile ds0 msk n (r200c ra) r200c_scale e]\<rparr>)
           else Inr st2)"

fun host_loop :: "(real list \<Rightarrow> real list \<Rightarrow> real list) \<Rightarrow> state \<Rightarrow> int list
    \<Rightarrow> error + state" where
  "host_loop vector_deriv st [] = Inr st"
| "host_loop vector_deriv st (hid # r) =
     (case host_step vector_deriv st hid of
        Inl e \<Rightarrow> Inl e
      | Inr st' \<Rightarrow> host_loop vector_deriv st' r)"

definition bin_centers :: "real list option \<Rightarrow> error + real list" where
  \<comment> \<open>\<open>(edges[:-1] + edges[1:]) / 2\<close>; \<open>None\<close> cannot be sliced\<close>
  "bin_centers eo =
     (case eo of
        None \<Rightarrow> Inl TypeError
      | Some e \<Rightarrow> Inr (map2 (\<lambda>a b. (a + b) / 2) (butlast e) (tl e)))"

definition init_state :: "table \<Rightarrow> (int \<rightharpoonup> Halo) \<Rightarrow> state" where
  "init_state tr h =
     \<lparr>tree = tr, hs = h, b_r_sp = [], b_r_max = [], b_r200m = [], b_r200c = [],
      edges = None, sub_counts = []\<rparr>"

definition aggregate :: "(real list \<Rightarrow> real list \<Rightarrow> real list) \<Rightarrow> table \<Rightarrow> (int \<rightharpoonup> Halo)
    \<Rightarrow> int list \<Rightarrow> error + real list \<times> state" where
  \<comment> \<open>the loop over the hosts and the bin centres; the percentiles of the four stacks
      are taken after that\<close>
  "aggregate vector_deriv tr h hosts =
     (case host_loop vector_deriv (init_state tr h) hosts of
        Inl e \<Rightarrow> Inl e
      | Inr st \<Rightarrow>
          (case bin_centers (edges st) of
             Inl e \<Rightarrow> Inl e
           | Inr c \<Rightarrow> Inr (c, st)))"

subsection \<open>Notions used in the statements\<close>

definition wrap1 :: "real \<Rightarrow> real" where
  \<comment> \<open>what the two conditional statements make of a difference \<open>d\<close>\<close>
  "wrap1 d = (let d1 = (if d > L / 2 then d - L else d) in if d1 < - L / 2 then d1 + L else d1)"

definition disp_row :: "row \<Rightarrow> row \<Rightarrow> row" where
  \<comment> \<open>the row \<open>w\<close> of a subhalo displaced by the row \<open>g\<close> of its host\<close>
  "disp_row w g = w\<lparr>r_x := wrap1 (r_x w - r_x g), r_y := wrap1 (r_y w - r_y g),
                    r_z := wrap1 (r_z w - r_z g)\<rparr>"

definition disjoint_slices :: "table \<Rightarrow> Halo \<Rightarrow> Halo \<Rightarrow> bool" where
  \<comment> \<open>two halos cut from different segments of the table share no row\<close>
  "disjoint_slices tr a b \<longleftrightarrow>
     h_start a + length (Halo_rows tr a) \<le> h_start b
     \<or> h_start b + length (Halo_rows tr b) \<le> h_start a"

subsection \<open>A small table: a subhalo with two snapshots, its host with three\<close>

definition ex_tree :: table where
  "ex_tree =
     [\<lparr>r_id = 5, r_snap = 99, r_scale = 0.5, r_x = 10, r_y = 30, r_z = 50, r_r = 1, r_m = 1\<rparr>,
      \<lparr>r_id = 5, r_snap = 100, r_scale = 1, r_x = 20, r_y = 40, r_z = 60, r_r = 1, r_m = 1\<rparr>,
      \<lparr>r_id = - 1, r_snap = 0, r_scale = 0, r_x = 0, r_y = 0, r_z = 0, r_r = 0, r_m = 0\<rparr>,
      \<lparr>r_id = 7, r_snap = 98, r_scale = 0.25, r_x = 1, r_y = 1, r_z = 1, r_r = 2, r_m = 9\<rparr>,
      \<lparr>r_id = 7, r_snap = 99, r_scale = 0.5, r_x = 2, r_y = 2, r_z = 2, r_r = 2, r_m = 9\<rparr>,
      \<lparr>r_id = 7, r_snap = 100, r_scale = 1, r_x = 3, r_y = 3, r_z = 3, r_r = 2, r_m = 9\<rparr>]"

definition ex_sub :: Halo where
  "ex_sub = \<lparr>halo_id = 5, h_start = 0, h_end = 2, ts = [1, 2], subs = [], disp = None,
              rad = None\<rparr>"

definition ex_host :: Halo where
  "ex_host = \<lparr>halo_id = 7, h_start = 3, h_end = 6, ts = [1 / 2, 1, 2], subs = [5], disp = None,
               rad = None\<rparr>"

definition ex_state :: state where
  \<comment> \<open>the two halos in \<open>hs\<close>, before the loop over the hosts\<close>
  "ex_state = init_state ex_tree (Map.empty(5 \<mapsto> ex_sub, 7 \<mapsto> ex_host))"

subsection \<open>The derivative, and a subhalo at rest beside its host\<close>

definition vector_deriv_fd :: "real list \<Rightarrow> real list \<Rightarrow> real list" where
  \<comment> \<open>Modelled from the spec: \<open>deriv.vector_deriv\<close>, a module this repository imports and
      the source files do not hold. The spec: finite differences, one-sided at the two
      boundary points and centred at the interior points, for at least two samples.\<close>
  "vector_deriv_fd t x =
     map (\<lambda>i. if i = 0 then (x ! 1 - x ! 0) / (t ! 1 - t ! 0)
              else if Suc i = length x then (x ! i - x ! (i - 1)) / (t ! i - t ! (i - 1))
              else (x ! Suc i - x ! (i - 1)) / (t ! Suc i - t ! (i - 1)))
       [0..<length x]"

definition still_tree :: table where
  "still_tree =
     [\<lparr>r_id = 5, r_snap = 99, r_scale = 0.5, r_x = 13, r_y = 20, r_z = 34, r_r = 1, r_m = 1\<rparr>,
      \<lparr>r_id = 5, r_snap = 100, r_scale = 1, r_x = 13, r_y = 20, r_z = 34, r_r = 1, r_m = 1\<rparr>,
      \<lparr>r_id = - 1, r_snap = 0, r_scale = 0, r_x = 0, r_y = 0, r_z = 0, r_r = 0, r_m = 0\<rparr>,
      \<lparr>r_id = 7, r_snap = 99, r_scale = 0.5, r_x = 10, r_y = 20, r_z = 30, r_r = 2, r_m = 9\<rparr>,
      \<lparr>r_id = 7, r_snap = 100, r_scale = 1, r_x = 10, r_y = 20, r_z = 30, r_r = 2, r_m = 9\<rparr>]"

definition still_sub :: Halo where
  "still_sub = \<lparr>halo_id = 5, h_start = 0, h_end = 2, ts = [1, 2], subs = [], disp = None,
                 rad = None\<rparr>"

definition still_host :: Halo where
  "still_host = \<lparr>halo_id = 7, h_start = 3, h_end = 5, ts = [1, 2], subs = [5], disp = None,
                  rad = None\<rparr>"


subsection \<open>The density of a bin, in the spec's words\<close>

definition spec_density :: "real list \<Rightarrow> nat \<Rightarrow> nat \<Rightarrow> real" where
  \<comment> \<open>the count of bin \<open>k\<close> of the 25 equal bins of \<open>(0.1, 2)\<close>, divided by the volume of
      the shell between the bin's edges and by \<open>n\<close>\<close>
  "spec_density a n k =
     (let r_inner = 0.1 + real k * ((2 - 0.1) / 25);
          r_outer = 0.1 + real (Suc k) * ((2 - 0.1) / 25);
          c = length (filter (\<lambda>v. r_inner \<le> v \<and> (if Suc k = 25 then v \<le> r_outer else v < r_outer)) a)
      in real c / (4 * pi / 3 * (r_outer ^ 3 - r_inner ^ 3)) / real n)"

definition density_profile :: "real list \<Rightarrow> real list \<Rightarrow> nat \<Rightarrow> bool" where
  \<comment> \<open>\<open>p\<close> is the density profile of the values \<open>a\<close> for the count \<open>n\<close>: 25 bins, each
      holding the density of its shell\<close>
  "density_profile p a n \<longleftrightarrow> length p = 25 \<and> (\<forall>k<25. p ! k = spec_density a n k)"

definition counts_agree :: "state \<Rightarrow> bool" where
  \<comment> \<open>\<open>edges\<close> is still \<open>None\<close> exactly when no count recorded so far exceeds the limit\<close>
  "counts_agree st \<longleftrightarrow> (edges st = None) = list_all (\<lambda>n. n \<le> SUBHALO_LIM) (sub_counts st)"

subsection \<open>A host with 41 subhalos\<close>

definition displaced_of :: "(real list \<Rightarrow> real list \<Rightarrow> real list) \<Rightarrow> table \<Rightarrow> Halo \<Rightarrow> Halo
    \<Rightarrow> displaced" where
  \<comment> \<open>the attributes \<open>displace\<close> stores, read from the table after the loop, when the
      derivative keeps the length of its argument\<close>
  "displaced_of dv tr' self host =
     (let d = map (\<lambda>w. sqrt ((r_x w)\<^sup>2 + (r_y w)\<^sup>2 + (r_z w)\<^sup>2)) (Halo_rows tr' self);
          vel = (\<lambda>q. map (\<lambda>x. x * 31.54) (map2 (*) (dv (ts self) q) (Halo_scales tr' self)))
      in \<lparr>ds = d,
          phis = map2 (\<lambda>a b. arccos (a / b)) (Halo_zs tr' self) d,
          ths = map2 arctan2 (Halo_ys tr' self) (Halo_xs tr' self),
          host_rs = (h_start host, h_end host),
          vxs = vel (Halo_xs tr' self), vys = vel (Halo_ys tr' self),
          vzs = vel (Halo_zs tr' self),
          vs = map sqrt (map2 (\<lambda>a b. a + b\<^sup>2)
                 (map2 (\<lambda>a b. a\<^sup>2 + b\<^sup>2) (vel (Halo_xs tr' self)) (vel (Halo_ys tr' self)))
                 (Halo_zs tr' self)),
          vrs = map abs (vel d)\<rparr>)"

definition big_tree :: table where
  \<comment> \<open>a subhalo at distance 1, then 3, of a host of radius 2 at the origin\<close>
  "big_tree =
     [\<lparr>r_id = 5, r_snap = 99, r_scale = 0.5, r_x = 0, r_y = 0, r_z = 1, r_r = 1, r_m = 1\<rparr>,
      \<lparr>r_id = 5, r_snap = 100, r_scale = 1, r_x = 0, r_y = 0, r_z = 3, r_r = 1, r_m = 1\<rparr>,
      \<lparr>r_id = - 1, r_snap = 0, r_scale = 0, r_x = 0, r_y = 0, r_z = 0, r_r = 0, r_m = 0\<rparr>,
      \<lparr>r_id = 7, r_snap = 99, r_scale = 0.5, r_x = 0, r_y = 0, r_z = 0, r_r = 2, r_m = 9\<rparr>,
      \<lparr>r_id = 7, r_snap = 100, r_scale = 1, r_x = 0, r_y = 0, r_z = 0, r_r = 2, r_m = 9\<rparr>]"

definition big_host :: Halo where
  \<comment> \<open>the membership table names the subhalo 41 times\<close>
  "big_host = \<lparr>halo_id = 7, h_start = 3, h_end = 5, ts = [1, 2], subs = replicate 41 5,
      disp = None,
      rad = Some \<lparr>m_sp = 1, r_sp = 2, r_min = 1, r_max = 2, r200m = 2, gamma = 1, m200c = 1,
                  r200c = 2, m_id = None\<rparr>\<rparr>"

definition big_hs :: "int \<rightharpoonup> Halo" where
  "big_hs = Map.empty(5 \<mapsto> still_sub, 7 \<mapsto> big_host)"

definition big_sub :: Halo where
  "big_sub = still_sub\<lparr>disp := Some (displaced_of vector_deriv_fd big_tree still_sub big_host)\<rparr>"

definition big_displaced :: state where
  "big_displaced = init_state big_tree (big_hs(5 \<mapsto> big_sub))"

definition big_state :: state where
  "big_state = init_state big_tree big_hs"

definition lone_state :: state where
  \<comment> \<open>the same host with no subhalo\<close>
  "lone_state = init_state big_tree (Map.empty(7 \<mapsto> big_host\<lparr>subs := []\<rparr>))"

section \<open>The displacement step\<close>

lemma set_coord_twice [simp]: "set_coord ax v (set_coord ax u w) = set_coord ax v w"
  by (cases ax) simp_all

lemma coord_set_coord [simp]: "coord ax (set_coord ax v w) = v"
  by (cases ax) simp_all

lemma wrap_sub_length [simp]: "length (wrap_sub ax tr s h) = length tr"
  by (simp add: wrap_sub_def Let_def)

lemma wrap_sub_other: "j \<noteq> s \<Longrightarrow> wrap_sub ax tr s h ! j = tr ! j"
  by (simp add: wrap_sub_def Let_def)

lemma wrap_sub_same:
  "s < length tr \<Longrightarrow>
   wrap_sub ax tr s h ! s = set_coord ax (wrap1 (coord ax (tr ! s) - coord ax (tr ! h))) (tr ! s)"
  by (simp add: wrap_sub_def wrap1_def Let_def)

lemma wrap_sub_eq:
  "s < length tr \<Longrightarrow>
   wrap_sub ax tr s h = tr[s := set_coord ax (wrap1 (coord ax (tr ! s) - coord ax (tr ! h))) (tr ! s)]"
  by (rule nth_equalityI) (auto simp: wrap_sub_same wrap_sub_other nth_list_update)

lemma displace_body_eq:
  assumes "h_start self + neg_index n i < length tr" "h_start host + neg_index k i < length tr"
    "h_start self + neg_index n i \<noteq> h_start host + neg_index k i"
  shows "displace_body self host n k tr i =
     tr[h_start self + neg_index n i :=
          disp_row (tr ! (h_start self + neg_index n i)) (tr ! (h_start host + neg_index k i))]"
  using assms by (simp add: displace_body_def Let_def wrap_sub_eq disp_row_def)

lemma neg_index_lt: "i < n \<Longrightarrow> neg_index n i < n"
  by (simp add: neg_index_def)

lemma neg_index_inj: "i < n \<Longrightarrow> j < n \<Longrightarrow> neg_index n i = neg_index n j \<Longrightarrow> i = j"
  by (auto simp: neg_index_def split: if_splits)

lemma length_slice: "length (slice a s e) = min (e - s) (length a - s)"
  by (simp add: slice_def)

lemma nth_slice:
  assumes "i < length (slice a s e)"
  shows "slice a s e ! i = a ! (s + i)"
proof -
  have "s \<le> length a" "i < e - s" using assms by (auto simp: slice_def)
  then show ?thesis by (simp add: slice_def)
qed


lemma slice_cong:
  assumes "length a = length b" "\<And>j. s \<le> j \<Longrightarrow> j < s + length (slice a s e) \<Longrightarrow> a ! j = b ! j"
  shows "slice a s e = slice b s e"
proof (rule nth_equalityI)
  show len: "length (slice a s e) = length (slice b s e)"
    using assms(1) by (simp add: length_slice)
  fix i assume i: "i < length (slice a s e)"
  then have "a ! (s + i) = b ! (s + i)" using assms(2) by simp
  then show "slice a s e ! i = slice b s e ! i"
    using i len by (simp add: nth_slice)
qed

lemma displace_prefix:
  fixes self host :: Halo and tr :: table
  defines "n \<equiv> length (Halo_rows tr self)" and "k \<equiv> length (Halo_rows tr host)"
  assumes disj: "h_start self + n \<le> h_start host \<or> h_start host + k \<le> h_start self"
    and m: "m \<le> n" "m \<le> k"
  shows "length (foldl (displace_body self host n k) tr [0..<m]) = length tr
    \<and> (\<forall>i<m. foldl (displace_body self host n k) tr [0..<m] ! (h_start self + neg_index n i)
          = disp_row (tr ! (h_start self + neg_index n i)) (tr ! (h_start host + neg_index k i)))
    \<and> (\<forall>j. (\<forall>i<m. j \<noteq> h_start self + neg_index n i)
          \<longrightarrow> foldl (displace_body self host n k) tr [0..<m] ! j = tr ! j)"
  using m
proof (induction m)
  case 0
  then show ?case by simp
next
  case (Suc m)
  let ?t = "foldl (displace_body self host n k) tr [0..<m]"
  let ?s = "h_start self + neg_index n m"
  let ?h = "h_start host + neg_index k m"
  from Suc have IH: "length ?t = length tr"
    "\<And>i. i < m \<Longrightarrow> ?t ! (h_start self + neg_index n i)
        = disp_row (tr ! (h_start self + neg_index n i)) (tr ! (h_start host + neg_index k i))"
    "\<And>j. (\<forall>i<m. j \<noteq> h_start self + neg_index n i) \<Longrightarrow> ?t ! j = tr ! j"
    by auto
  from Suc.prems have mn: "m < n" and mk: "m < k" by auto
  have nlen: "h_start self + n \<le> length tr" "h_start host + k \<le> length tr"
    using mn mk unfolding n_def k_def Halo_rows_def length_slice by linarith+
  have s_lt: "?s < length tr" using neg_index_lt[OF mn] nlen by simp
  have h_lt: "?h < length tr" using neg_index_lt[OF mk] nlen by simp
  have sh: "?s \<noteq> ?h" using neg_index_lt[OF mn] neg_index_lt[OF mk] disj by auto
  have s_new: "\<forall>i<m. ?s \<noteq> h_start self + neg_index n i"
    using neg_index_inj[OF _ mn] mn by (metis add_left_cancel less_trans nat_neq_iff)
  have h_new: "\<forall>i<m. ?h \<noteq> h_start self + neg_index n i"
  proof (intro allI impI)
    fix i assume "i < m"
    then have "neg_index n i < n" using mn neg_index_lt by simp
    then show "?h \<noteq> h_start self + neg_index n i"
      using neg_index_lt[OF mk] disj by auto
  qed
  have step: "foldl (displace_body self host n k) tr [0..<Suc m]
      = ?t[?s := disp_row (tr ! ?s) (tr ! ?h)]"
    using displace_body_eq[of self n m ?t host k] s_lt h_lt sh IH(1) IH(3)[OF s_new] IH(3)[OF h_new]
    by simp
  show ?case
    unfolding step
  proof (intro conjI allI impI)
    show "length (?t[?s := disp_row (tr ! ?s) (tr ! ?h)]) = length tr"
      by (simp only: length_list_update IH(1))
  next
    fix i assume i: "i < Suc m"
    show "?t[?s := disp_row (tr ! ?s) (tr ! ?h)] ! (h_start self + neg_index n i)
        = disp_row (tr ! (h_start self + neg_index n i)) (tr ! (h_start host + neg_index k i))"
    proof (cases "i = m")
      case True
      then show ?thesis using s_lt IH(1) by simp
    next
      case False
      then have im: "i < m" using i by simp
      then have "?s \<noteq> h_start self + neg_index n i" using s_new by blast
      then show ?thesis using IH(2)[OF im] by simp
    qed
  next
    fix j assume j: "\<forall>i<Suc m. j \<noteq> h_start self + neg_index n i"
    then have "j \<noteq> ?s" and "\<forall>i<m. j \<noteq> h_start self + neg_index n i" by auto
    then show "?t[?s := disp_row (tr ! ?s) (tr ! ?h)] ! j = tr ! j"
      using IH(3) by simp
  qed
qed

lemma fst_displace: "fst (displace vector_deriv tr self host) = displace_loop tr self host"
  by (simp add: displace_def Let_def)

lemma displace_loop_length:
  "disjoint_slices tr self host \<Longrightarrow> length (displace_loop tr self host) = length tr"
  using displace_prefix[of self tr host "min (length (Halo_rows tr self)) (length (Halo_rows tr host))"]
  by (simp add: displace_loop_def Let_def disjoint_slices_def)

lemma displace_loop_touched:
  "disjoint_slices tr self host \<Longrightarrow> i < length (Halo_rows tr self) \<Longrightarrow>
   i < length (Halo_rows tr host) \<Longrightarrow>
   displace_loop tr self host ! (h_start self + neg_index (length (Halo_rows tr self)) i)
     = disp_row (tr ! (h_start self + neg_index (length (Halo_rows tr self)) i))
                (tr ! (h_start host + neg_index (length (Halo_rows tr host)) i))"
  using displace_prefix[of self tr host "min (length (Halo_rows tr self)) (length (Halo_rows tr host))"]
  by (simp add: displace_loop_def Let_def disjoint_slices_def)

lemma displace_loop_untouched:
  "disjoint_slices tr self host \<Longrightarrow>
   (\<forall>i. i < length (Halo_rows tr self) \<and> i < length (Halo_rows tr host)
      \<longrightarrow> j \<noteq> h_start self + neg_index (length (Halo_rows tr self)) i) \<Longrightarrow>
   displace_loop tr self host ! j = tr ! j"
  using displace_prefix[of self tr host "min (length (Halo_rows tr self)) (length (Halo_rows tr host))"]
  by (simp add: displace_loop_def Let_def disjoint_slices_def)

lemma displace_loop_host_rows:
  assumes "disjoint_slices tr self host"
  shows "Halo_rows (displace_loop tr self host) host = Halo_rows tr host"
  unfolding Halo_rows_def
proof (rule slice_cong)
  show "length (displace_loop tr self host) = length tr"
    using assms by (rule displace_loop_length)
next
  fix j
  assume j: "h_start host \<le> j"
    "j < h_start host + length (slice (displace_loop tr self host) (h_start host) (h_end host))"
  have len: "length (slice (displace_loop tr self host) (h_start host) (h_end host))
      = length (Halo_rows tr host)"
    using displace_loop_length[OF assms] by (simp add: Halo_rows_def length_slice)
  have "\<forall>i. i < length (Halo_rows tr self) \<and> i < length (Halo_rows tr host)
      \<longrightarrow> j \<noteq> h_start self + neg_index (length (Halo_rows tr self)) i"
  proof (intro allI impI)
    fix i assume "i < length (Halo_rows tr self) \<and> i < length (Halo_rows tr host)"
    then have "neg_index (length (Halo_rows tr self)) i < length (Halo_rows tr self)"
      by (simp add: neg_index_lt)
    then show "j \<noteq> h_start self + neg_index (length (Halo_rows tr self)) i"
      using j len assms by (auto simp: disjoint_slices_def)
  qed
  then show "displace_loop tr self host ! j = tr ! j"
    using assms by (rule displace_loop_untouched[rotated])
qed

lemma wrap1_range:
  assumes "0 \<le> a" "a < L" "0 \<le> b" "b < L"
  shows "- L / 2 \<le> wrap1 (a - b) \<and> wrap1 (a - b) \<le> L / 2"
  using assms by (simp add: wrap1_def L_def Let_def)

lemma coord_disp_row: "coord ax (disp_row w g) = wrap1 (coord ax w - coord ax g)"
  by (cases ax) (simp_all add: disp_row_def)

lemma neg_index_invol: "j < n \<Longrightarrow> neg_index n (neg_index n j) = j"
  by (auto simp: neg_index_def)

lemma displace_loop_self_rows:
  assumes disj: "disjoint_slices tr self host"
    and eq: "length (Halo_rows tr self) = length (Halo_rows tr host)"
  shows "Halo_rows (displace_loop tr self host) self
       = map2 disp_row (Halo_rows tr self) (Halo_rows tr host)"
proof (rule nth_equalityI)
  let ?n = "length (Halo_rows tr self)"
  let ?t = "displace_loop tr self host"
  have len: "length (Halo_rows ?t self) = ?n"
    using displace_loop_length[OF disj] by (simp add: Halo_rows_def length_slice)
  then show "length (Halo_rows ?t self)
      = length (map2 disp_row (Halo_rows tr self) (Halo_rows tr host))"
    using eq by simp
next
  let ?n = "length (Halo_rows tr self)"
  let ?t = "displace_loop tr self host"
  have len: "length (Halo_rows ?t self) = ?n"
    using displace_loop_length[OF disj] by (simp add: Halo_rows_def length_slice)
  fix j assume "j < length (Halo_rows ?t self)"
  then have j: "j < ?n" using len by simp
  let ?i = "neg_index ?n j"
  have i: "?i < ?n" using j by (rule neg_index_lt)
  have inv: "neg_index ?n ?i = j" using j by (rule neg_index_invol)
  have "Halo_rows ?t self ! j = ?t ! (h_start self + j)"
    using j len by (simp add: Halo_rows_def nth_slice)
  also have "\<dots> = disp_row (tr ! (h_start self + j)) (tr ! (h_start host + j))"
    using displace_loop_touched[OF disj i] i eq inv by simp
  also have "\<dots> = disp_row (Halo_rows tr self ! j) (Halo_rows tr host ! j)"
    using j eq by (simp add: Halo_rows_def nth_slice)
  finally show "Halo_rows ?t self ! j
      = map2 disp_row (Halo_rows tr self) (Halo_rows tr host) ! j"
    using j eq by simp
qed

lemma ex_rows:
  "Halo_rows ex_tree ex_sub = [ex_tree ! 0, ex_tree ! 1]"
  "Halo_rows ex_tree ex_host = [ex_tree ! 3, ex_tree ! 4, ex_tree ! 5]"
  by (simp_all add: Halo_rows_def slice_def ex_tree_def ex_sub_def ex_host_def)

lemma ex_bounds:
  "h_start ex_sub = 0" "h_end ex_sub = 2" "h_start ex_host = 3" "h_end ex_host = 6"
  by (simp_all add: ex_sub_def ex_host_def)

lemma ex_disj: "disjoint_slices ex_tree ex_sub ex_host"
  by (simp add: disjoint_slices_def ex_rows ex_bounds)

lemma slice2: "a + 2 \<le> length t \<Longrightarrow> b = a + 2 \<Longrightarrow> slice t a b = [t ! a, t ! (a + 1)]"
  by (rule nth_equalityI) (auto simp: length_slice nth_slice less_Suc_eq numeral_2_eq_2)

text \<open>
  C1. The claim: the host's position is subtracted at the last \<open>m\<close> snapshots, the \<open>k\<close>-th most
  recent sample of the subhalo paired with the \<open>k\<close>-th most recent one of the host. The loop
  runs \<open>i\<close> from \<open>0\<close> and indexes with \<open>-i\<close>, and \<open>-0\<close> is the first element: the first
  sample of the subhalo is paired with the first sample of the host, and the \<open>m\<close>-th most
  recent one is left out. With a subhalo of two snapshots at \<open>x = 10, 20\<close> and a host of three at
  \<open>x = 1, 2, 3\<close> the result is \<open>10 - 1, 20 - 3\<close>, not \<open>10 - 2, 20 - 3\<close>.
\<close>

theorem displace_pairs_first_samples:
  "Halo_xs (fst (displace vector_deriv ex_tree ex_sub ex_host)) ex_sub = [10 - 1, 20 - 3]
   \<and> Halo_xs (fst (displace vector_deriv ex_tree ex_sub ex_host)) ex_sub \<noteq> [10 - 2, 20 - 3]"
proof -
  let ?t = "displace_loop ex_tree ex_sub ex_host"
  have len: "length ?t = 6"
    using displace_loop_length[OF ex_disj] by (simp add: ex_tree_def)
  have r0: "?t ! 0 = disp_row (ex_tree ! 0) (ex_tree ! 3)"
    using displace_loop_touched[OF ex_disj, of 0]
    by (simp add: ex_rows neg_index_def ex_bounds)
  have r1: "?t ! 1 = disp_row (ex_tree ! 1) (ex_tree ! 5)"
    using displace_loop_touched[OF ex_disj, of 1]
    by (simp add: ex_rows neg_index_def ex_bounds)
  have "Halo_rows ?t ex_sub = [?t ! 0, ?t ! 1]"
    using len by (simp add: Halo_rows_def ex_bounds slice2)
  then have "Halo_xs ?t ex_sub = [r_x (?t ! 0), r_x (?t ! 1)]"
    by (simp add: Halo_pos_def)
  also have "\<dots> = [9, 17]"
    unfolding r0 r1 by (simp add: disp_row_def wrap1_def L_def ex_tree_def)
  finally show ?thesis by (simp add: fst_displace)
qed

text \<open>
  C3. When the coordinates of the subhalo and of its host lie in \<open>[0, L)\<close>, every coordinate
  that the loop writes lies in \<open>[-L/2, L/2]\<close>. The loop writes the positions \<open>-i\<close> of the
  subhalo's slice, for \<open>i\<close> below the shorter length.
\<close>

theorem displace_wrap_range:
  assumes disj: "disjoint_slices tr self host"
    and raw: "\<forall>w \<in> set (Halo_rows tr self) \<union> set (Halo_rows tr host). 0 \<le> coord ax w \<and> coord ax w < L"
    and i: "i < min (length (Halo_pos ax tr self)) (length (Halo_pos ax tr host))"
  shows "- L / 2 \<le> Halo_pos ax (fst (displace vector_deriv tr self host)) self
              ! neg_index (length (Halo_pos ax tr self)) i
       \<and> Halo_pos ax (fst (displace vector_deriv tr self host)) self
              ! neg_index (length (Halo_pos ax tr self)) i \<le> L / 2"
proof -
  let ?n = "length (Halo_rows tr self)" and ?k = "length (Halo_rows tr host)"
  let ?t = "displace_loop tr self host"
  from i have i_n: "i < ?n" and i_k: "i < ?k" by (simp_all add: Halo_pos_def)
  have p_n: "neg_index ?n i < ?n" using i_n by (rule neg_index_lt)
  have p_k: "neg_index ?k i < ?k" using i_k by (rule neg_index_lt)
  have len: "length (Halo_rows ?t self) = ?n"
    using displace_loop_length[OF disj] by (simp add: Halo_rows_def length_slice)
  have a: "Halo_rows tr self ! neg_index ?n i = tr ! (h_start self + neg_index ?n i)"
    using p_n by (simp add: Halo_rows_def nth_slice)
  have b: "Halo_rows tr host ! neg_index ?k i = tr ! (h_start host + neg_index ?k i)"
    using p_k by (simp add: Halo_rows_def nth_slice)
  have a_in: "tr ! (h_start self + neg_index ?n i) \<in> set (Halo_rows tr self)"
    using nth_mem[OF p_n] a by simp
  have b_in: "tr ! (h_start host + neg_index ?k i) \<in> set (Halo_rows tr host)"
    using nth_mem[OF p_k] b by simp
  have "Halo_pos ax ?t self ! neg_index ?n i = coord ax (?t ! (h_start self + neg_index ?n i))"
    using p_n len by (simp add: Halo_pos_def) (simp add: Halo_rows_def nth_slice)
  also have "\<dots> = wrap1 (coord ax (tr ! (h_start self + neg_index ?n i))
                       - coord ax (tr ! (h_start host + neg_index ?k i)))"
    using displace_loop_touched[OF disj i_n i_k] by (simp add: coord_disp_row)
  finally have eq: "Halo_pos ax ?t self ! neg_index ?n i
      = wrap1 (coord ax (tr ! (h_start self + neg_index ?n i))
               - coord ax (tr ! (h_start host + neg_index ?k i)))" .
  have "- L / 2 \<le> wrap1 (coord ax (tr ! (h_start self + neg_index ?n i))
               - coord ax (tr ! (h_start host + neg_index ?k i)))
      \<and> wrap1 (coord ax (tr ! (h_start self + neg_index ?n i))
               - coord ax (tr ! (h_start host + neg_index ?k i))) \<le> L / 2"
    using raw a_in b_in by (intro wrap1_range) auto
  moreover have "length (Halo_pos ax tr self) = ?n" by (simp add: Halo_pos_def)
  ultimately show ?thesis by (simp only: fst_displace eq)
qed

theorem displace_wrap_range_witness:
  "disjoint_slices ex_tree ex_sub ex_host
   \<and> list_all (\<lambda>w. 0 \<le> coord X w \<and> coord X w < L)
         (Halo_rows ex_tree ex_sub @ Halo_rows ex_tree ex_host)
   \<and> 1 < min (length (Halo_xs ex_tree ex_sub)) (length (Halo_xs ex_tree ex_host))
   \<and> - L / 2 \<le> Halo_xs (fst (displace (\<lambda>t q. q) ex_tree ex_sub ex_host)) ex_sub
                ! neg_index (length (Halo_xs ex_tree ex_sub)) 1
   \<and> Halo_xs (fst (displace (\<lambda>t q. q) ex_tree ex_sub ex_host)) ex_sub
                ! neg_index (length (Halo_xs ex_tree ex_sub)) 1 \<le> L / 2"
proof -
  have h1: "disjoint_slices ex_tree ex_sub ex_host" by (rule ex_disj)
  have h2: "\<forall>w \<in> set (Halo_rows ex_tree ex_sub) \<union> set (Halo_rows ex_tree ex_host).
      0 \<le> coord X w \<and> coord X w < L"
    unfolding ex_rows by (simp add: ex_tree_def L_def)
  have h3: "1 < min (length (Halo_xs ex_tree ex_sub)) (length (Halo_xs ex_tree ex_host))"
    by (simp add: Halo_pos_def ex_rows)
  show ?thesis
    using h1 h2 h3 displace_wrap_range[OF h1 h2 h3, of "\<lambda>t q. q"]
    by (simp add: list_all_iff)
qed

lemma np_map2_same: "length a = length b \<Longrightarrow> np_map2 f a b = Inr (map2 f a b)"
  by (simp add: np_map2_def)

lemma velocity_same:
  "length (dv t q) = length sc \<Longrightarrow>
   velocity dv t q sc = Inr (map (\<lambda>x. x * 31.54) (map2 (*) (dv t q) sc))"
  by (simp add: velocity_def np_map2_same)

lemma displace_result:
  fixes tr :: table and self host :: Halo and dv :: "real list \<Rightarrow> real list \<Rightarrow> real list"
  assumes dv: "\<And>t q. length (dv t q) = length q"
  defines "tr' \<equiv> displace_loop tr self host"
  defines "d \<equiv> map (\<lambda>w. sqrt ((r_x w)\<^sup>2 + (r_y w)\<^sup>2 + (r_z w)\<^sup>2)) (Halo_rows tr' self)"
  defines "vel \<equiv> \<lambda>q. map (\<lambda>x. x * 31.54) (map2 (*) (dv (ts self) q) (Halo_scales tr' self))"
  shows "snd (displace dv tr self host) =
     Inr (self\<lparr>disp := Some \<lparr>ds = d,
            phis = map2 (\<lambda>a b. arccos (a / b)) (Halo_zs tr' self) d,
            ths = map2 arctan2 (Halo_ys tr' self) (Halo_xs tr' self),
            host_rs = (h_start host, h_end host),
            vxs = vel (Halo_xs tr' self), vys = vel (Halo_ys tr' self),
            vzs = vel (Halo_zs tr' self),
            vs = map sqrt (map2 (\<lambda>a b. a + b\<^sup>2)
                   (map2 (\<lambda>a b. a\<^sup>2 + b\<^sup>2) (vel (Halo_xs tr' self)) (vel (Halo_ys tr' self)))
                   (Halo_zs tr' self)),
            vrs = map abs (vel d)\<rparr>\<rparr>)"
proof -
  have l: "length (Halo_pos ax tr' self) = length (Halo_scales tr' self)" for ax
    by (simp add: Halo_pos_def Halo_scales_def)
  have ld: "length d = length (Halo_scales tr' self)"
    by (simp add: d_def Halo_scales_def)
  have v: "velocity dv (ts self) (Halo_pos ax tr' self) (Halo_scales tr' self)
      = Inr (vel (Halo_pos ax tr' self))" for ax
    unfolding vel_def by (rule velocity_same) (simp add: dv l)
  have vd: "velocity dv (ts self) d (Halo_scales tr' self) = Inr (vel d)"
    unfolding vel_def by (rule velocity_same) (simp add: dv ld)
  have lv: "length (vel q) = min (length q) (length (Halo_scales tr' self))" for q
    by (simp add: vel_def dv)
  have p1: "np_map2 (\<lambda>a b. a\<^sup>2 + b\<^sup>2) (vel (Halo_xs tr' self)) (vel (Halo_ys tr' self))
      = Inr (map2 (\<lambda>a b. a\<^sup>2 + b\<^sup>2) (vel (Halo_xs tr' self)) (vel (Halo_ys tr' self)))"
    by (rule np_map2_same) (simp add: lv l)
  have p2: "np_map2 (\<lambda>a b. a + b\<^sup>2)
        (map2 (\<lambda>a b. a\<^sup>2 + b\<^sup>2) (vel (Halo_xs tr' self)) (vel (Halo_ys tr' self)))
        (Halo_zs tr' self)
      = Inr (map2 (\<lambda>a b. a + b\<^sup>2)
        (map2 (\<lambda>a b. a\<^sup>2 + b\<^sup>2) (vel (Halo_xs tr' self)) (vel (Halo_ys tr' self)))
        (Halo_zs tr' self))"
    by (rule np_map2_same) (simp add: lv l)
  show ?thesis
    unfolding displace_def Let_def tr'_def[symmetric] d_def[symmetric]
    by (simp add: v vd p1 p2)
qed

lemma displace_snd_Inr:
  assumes "snd (displace dv tr self host) = Inr s"
  shows "\<exists>d. s = self\<lparr>disp := Some d\<rparr> \<and> host_rs d = (h_start host, h_end host)"
  using assms unfolding displace_def Let_def
  by (auto split: sum.splits)

lemma displace_sub_ok:
  assumes "hs st hid = Some host" "hs st sid = Some sub"
    and dv: "\<And>t q. length (dv t q) = length q"
  shows "\<exists>st'. displace_sub dv hid st sid = Inr st'"
proof -
  obtain s where "snd (displace dv (tree st) sub host) = Inr s"
    using displace_result[of dv "tree st" sub host, OF dv] by blast
  then obtain tr' where "displace dv (tree st) sub host = (tr', Inr s)"
    by (cases "displace dv (tree st) sub host") simp
  then show ?thesis using assms(1,2) by (simp add: displace_sub_def)
qed

text \<open>
  C9. \<open>sub.displace(host)\<close> leaves the host as it is: the host object keeps all its
  attributes (its ages \<open>ts\<close> among them), and its slices of the scale, position, radius and
  mass columns read the same after the call. Only the subhalo's object is replaced, with its
  new attributes, and \<open>host_rs\<close> there is the host's slice of the radius column itself.
  The two halos are two objects, cut from different segments of the table.
\<close>

theorem displace_sub_frame:
  assumes host: "hs st hid = Some host" and sub: "hs st sid = Some sub"
    and ne: "sid \<noteq> hid"
    and disj: "disjoint_slices (tree st) sub host"
    and ok: "displace_sub dv hid st sid = Inr st'"
  shows "hs st' hid = Some host
    \<and> Halo_scales (tree st') host = Halo_scales (tree st) host
    \<and> Halo_xs (tree st') host = Halo_xs (tree st) host
    \<and> Halo_ys (tree st') host = Halo_ys (tree st) host
    \<and> Halo_zs (tree st') host = Halo_zs (tree st) host
    \<and> Halo_rs (tree st') host = Halo_rs (tree st) host
    \<and> Halo_ms (tree st') host = Halo_ms (tree st) host
    \<and> (\<forall>k. k \<noteq> sid \<longrightarrow> hs st' k = hs st k)
    \<and> (\<exists>d. hs st' sid = Some (sub\<lparr>disp := Some d\<rparr>)
           \<and> host_rs d = (h_start host, h_end host)
           \<and> Halo_host_rs (tree st') d = Halo_rs (tree st') host)"
proof -
  obtain tr' r where dr: "displace dv (tree st) sub host = (tr', r)"
    by (cases "displace dv (tree st) sub host")
  from ok host sub dr obtain sub' where r: "r = Inr sub'"
    and st': "st' = st\<lparr>tree := tr', hs := (hs st)(sid \<mapsto> sub')\<rparr>"
    by (auto simp: displace_sub_def split: sum.splits)
  have tr': "tr' = displace_loop (tree st) sub host"
    using dr fst_displace[of dv "tree st" sub host] by simp
  have "snd (displace dv (tree st) sub host) = Inr sub'" using dr r by simp
  then obtain d where d: "sub' = sub\<lparr>disp := Some d\<rparr>" "host_rs d = (h_start host, h_end host)"
    using displace_snd_Inr by blast
  have rows: "Halo_rows (tree st') host = Halo_rows (tree st) host"
    using displace_loop_host_rows[OF disj] by (simp add: st' tr')
  have "Halo_host_rs (tree st') d = Halo_rs (tree st') host"
    by (simp add: Halo_host_rs_def Halo_rs_def Halo_rows_def d(2))
  then have "\<exists>d. hs st' sid = Some (sub\<lparr>disp := Some d\<rparr>)
           \<and> host_rs d = (h_start host, h_end host)
           \<and> Halo_host_rs (tree st') d = Halo_rs (tree st') host"
    using d by (intro exI[of _ d]) (simp add: st')
  moreover have "hs st' hid = Some host" "\<forall>k. k \<noteq> sid \<longrightarrow> hs st' k = hs st k"
    using ne host by (simp_all add: st')
  ultimately show ?thesis
    using rows by (simp add: Halo_scales_def Halo_pos_def Halo_rs_def Halo_ms_def)
qed

theorem displace_sub_frame_witness:
  "\<exists>st'. displace_sub (\<lambda>t q. q) 7 ex_state 5 = Inr st'
     \<and> hs st' 7 = Some ex_host
     \<and> Halo_scales (tree st') ex_host = Halo_scales (tree ex_state) ex_host
     \<and> Halo_xs (tree st') ex_host = Halo_xs (tree ex_state) ex_host
     \<and> Halo_ys (tree st') ex_host = Halo_ys (tree ex_state) ex_host
     \<and> Halo_zs (tree st') ex_host = Halo_zs (tree ex_state) ex_host
     \<and> Halo_rs (tree st') ex_host = Halo_rs (tree ex_state) ex_host
     \<and> Halo_ms (tree st') ex_host = Halo_ms (tree ex_state) ex_host"
proof -
  have h1: "hs ex_state 7 = Some ex_host" and h2: "hs ex_state 5 = Some ex_sub"
    by (simp_all add: ex_state_def init_state_def)
  have h3: "(5::int) \<noteq> 7" by simp
  have h4: "disjoint_slices (tree ex_state) ex_sub ex_host"
    using ex_disj by (simp add: ex_state_def init_state_def)
  obtain st' where ok: "displace_sub (\<lambda>t q. q) 7 ex_state 5 = Inr st'"
    using displace_sub_ok[OF h1 h2, of "\<lambda>t q. q"] by auto
  show ?thesis
    using displace_sub_frame[OF h1 h2 h3 h4 ok] ok by blast
qed

lemma length_vector_deriv_fd: "length (vector_deriv_fd t x) = length x"
  by (simp add: vector_deriv_fd_def)

lemma still_rows:
  "Halo_rows still_tree still_sub = [still_tree ! 0, still_tree ! 1]"
  "Halo_rows still_tree still_host = [still_tree ! 3, still_tree ! 4]"
  by (simp_all add: Halo_rows_def slice_def still_tree_def still_sub_def still_host_def)

lemma still_disj: "disjoint_slices still_tree still_sub still_host"
  by (simp add: disjoint_slices_def still_rows) (simp add: still_sub_def still_host_def)

lemma still_displaced_rows:
  "Halo_rows (displace_loop still_tree still_sub still_host) still_sub =
     [\<lparr>r_id = 5, r_snap = 99, r_scale = 0.5, r_x = 3, r_y = 0, r_z = 4, r_r = 1, r_m = 1\<rparr>,
      \<lparr>r_id = 5, r_snap = 100, r_scale = 1, r_x = 3, r_y = 0, r_z = 4, r_r = 1, r_m = 1\<rparr>]"
proof -
  have "Halo_rows (displace_loop still_tree still_sub still_host) still_sub
      = map2 disp_row (Halo_rows still_tree still_sub) (Halo_rows still_tree still_host)"
    by (rule displace_loop_self_rows[OF still_disj]) (simp add: still_rows)
  also have "\<dots> = [disp_row (still_tree ! 0) (still_tree ! 3),
                     disp_row (still_tree ! 1) (still_tree ! 4)]"
    by (simp add: still_rows)
  also have "\<dots> = [\<lparr>r_id = 5, r_snap = 99, r_scale = 0.5, r_x = 3, r_y = 0, r_z = 4, r_r = 1, r_m = 1\<rparr>,
      \<lparr>r_id = 5, r_snap = 100, r_scale = 1, r_x = 3, r_y = 0, r_z = 4, r_r = 1, r_m = 1\<rparr>]"
    by (simp add: still_tree_def disp_row_def wrap1_def L_def)
  finally show ?thesis .
qed

lemma fd_const2: "vector_deriv_fd [1, 2] [c, c] = [0, 0]"
  by (simp add: vector_deriv_fd_def upt_rec numeral_2_eq_2)

lemma displace_vs_formula:
  assumes dv: "\<And>t q. length (dv t q) = length q"
    and s: "snd (displace dv tr self host) = Inr s" and d: "disp s = Some d"
    and j: "j < length (Halo_rows tr self)"
    and disj: "disjoint_slices tr self host"
  shows "vs d ! j = sqrt ((vxs d ! j)\<^sup>2 + (vys d ! j)\<^sup>2
                          + (Halo_zs (fst (displace dv tr self host)) self ! j)\<^sup>2)"
proof -
  let ?t = "displace_loop tr self host"
  have len: "length (Halo_rows ?t self) = length (Halo_rows tr self)"
    using displace_loop_length[OF disj] by (simp add: Halo_rows_def length_slice)
  have l: "length (Halo_pos ax ?t self) = length (Halo_rows tr self)" for ax
    by (simp add: Halo_pos_def len)
  have ls: "length (Halo_scales ?t self) = length (Halo_rows tr self)"
    by (simp add: Halo_scales_def len)
  show ?thesis
    using s d j unfolding fst_displace displace_result[of dv, OF dv]
    by (auto simp: l ls dv)
qed

text \<open>
  C5. The claim: \<open>vs[j] = sqrt(vxs[j]^2 + vys[j]^2 + vzs[j]^2)\<close>. The code sums
  \<open>self.zs**2\<close>, the displaced position, in place of \<open>self.vzs**2\<close>
  (\<open>displace_vs_formula\<close>). A subhalo at rest at \<open>(3, 0, 4)\<close> from its host has the
  velocity \<open>0\<close> in each component, and the stored speed is \<open>4\<close>.
\<close>

theorem displace_speed_uses_z_position:
  "\<exists>s d. snd (displace vector_deriv_fd still_tree still_sub still_host) = Inr s
     \<and> disp s = Some d
     \<and> vxs d = [0, 0] \<and> vys d = [0, 0] \<and> vzs d = [0, 0]
     \<and> Halo_zs (fst (displace vector_deriv_fd still_tree still_sub still_host)) still_sub = [4, 4]
     \<and> vs d = [4, 4]
     \<and> vs d ! 1 \<noteq> sqrt ((vxs d ! 1)\<^sup>2 + (vys d ! 1)\<^sup>2 + (vzs d ! 1)\<^sup>2)"
proof -
  let ?t = "displace_loop still_tree still_sub still_host"
  have x: "Halo_xs ?t still_sub = [3, 3]" and y: "Halo_ys ?t still_sub = [0, 0]"
    and z: "Halo_zs ?t still_sub = [4, 4]" and sc: "Halo_scales ?t still_sub = [1 / 2, 1]"
    by (simp_all add: Halo_pos_def Halo_scales_def still_displaced_rows)
  have t: "ts still_sub = [1, 2]" by (simp add: still_sub_def)
  have vel: "map (\<lambda>x. x * 31.54) (map2 (*) (vector_deriv_fd [1, 2] [c, c]) [1 / 2, 1]) = [0, 0]"
    for c :: real
    by (simp add: fd_const2)
  have sq: "sqrt 16 = 4"
    using real_sqrt_abs[of 4] by simp
  show ?thesis
    unfolding fst_displace displace_result[of vector_deriv_fd, OF length_vector_deriv_fd]
    by (simp add: x y z sc t fd_const2 sq)
qed

section \<open>The perihelion\<close>

lemma argmin_least:
  "w \<noteq> [] \<Longrightarrow> argmin w < length w \<and> (\<forall>j<length w. w ! argmin w \<le> w ! j)"
proof (induction w rule: argmin.induct)
  case 1
  then show ?case by simp
next
  case (2 x)
  then show ?case by simp
next
  case (3 x y r)
  let ?j = "argmin (y # r)"
  from 3 have IH: "?j < length (y # r)" "\<And>j. j < length (y # r) \<Longrightarrow> (y # r) ! ?j \<le> (y # r) ! j"
    by auto
  show ?case
  proof (cases "x \<le> (y # r) ! ?j")
    case True
    have "\<forall>j<length (x # y # r). x \<le> (x # y # r) ! j"
    proof (intro allI impI)
      fix j assume "j < length (x # y # r)"
      then show "x \<le> (x # y # r) ! j"
        using True IH(2)[of "j - 1"] by (cases j) auto
    qed
    then show ?thesis using True by (simp add: Let_def)
  next
    case False
    have "\<forall>j<length (x # y # r). (y # r) ! ?j \<le> (x # y # r) ! j"
    proof (intro allI impI)
      fix j assume "j < length (x # y # r)"
      then show "(y # r) ! ?j \<le> (x # y # r) ! j"
        using False IH(2)[of "j - 1"] by (cases j) auto
    qed
    then show ?thesis using False IH(1) by (simp add: Let_def)
  qed
qed

lemma py_get_neg:
  "0 < m \<Longrightarrow> m \<le> length a \<Longrightarrow> py_get a (- int m) = Inr (a ! (length a - m))"
  by (simp add: py_get_def Let_def nat_diff_distrib' of_nat_diff)

lemma py_get_last: "a \<noteq> [] \<Longrightarrow> py_get a (- 1) = Inr (last a)"
  using py_get_neg[of 1 a] by (simp add: last_conv_nth Suc_le_eq)

lemma py_get_window:
  assumes "k < l" "l \<le> length a"
  shows "py_get a (int k - int l) = Inr (a ! (length a - l + k))"
proof -
  have "int k - int l = - int (l - k)" using assms by simp
  moreover have "length a - (l - k) = length a - l + k" using assms by simp
  ultimately show ?thesis using py_get_neg[of "l - k" a] assms by simp
qed

lemma displace_lengths:
  assumes dv: "\<And>t q. length (dv t q) = length q"
    and disj: "disjoint_slices tr self host"
    and s: "snd (displace dv tr self host) = Inr s" and d: "disp s = Some d"
  shows "length (ds d) = length (Halo_rows tr self)"
    and "length (phis d) = length (Halo_rows tr self)"
    and "length (ths d) = length (Halo_rows tr self)"
    and "ts s = ts self"
    and "Halo_host_rs (fst (displace dv tr self host)) d = Halo_rs tr host"
proof -
  let ?t = "displace_loop tr self host"
  have len: "length (Halo_rows ?t self) = length (Halo_rows tr self)"
    using displace_loop_length[OF disj] by (simp add: Halo_rows_def length_slice)
  have l: "length (Halo_pos ax ?t self) = length (Halo_rows tr self)" for ax
    by (simp add: Halo_pos_def len)
  show "length (ds d) = length (Halo_rows tr self)"
    "length (phis d) = length (Halo_rows tr self)"
    "length (ths d) = length (Halo_rows tr self)"
    "ts s = ts self"
    using s d unfolding displace_result[of dv, OF dv]
    by (auto simp: l len)
  have "host_rs d = (h_start host, h_end host)"
    using s d displace_snd_Inr[OF s] by auto
  then have "Halo_host_rs ?t d = Halo_rs ?t host"
    by (simp add: Halo_host_rs_def Halo_rs_def Halo_rows_def)
  then show "Halo_host_rs (fst (displace dv tr self host)) d = Halo_rs tr host"
    using displace_loop_host_rows[OF disj] by (simp add: fst_displace Halo_rs_def)
qed

text \<open>
  C2. For a displaced subhalo whose distances and whose host's radii are not empty,
  \<open>perihelion\<close> returns, and what it returns is read at one position \<open>k\<close> of the window
  of the last \<open>l = min(len(ds), len(host_rs))\<close> samples, counted from the end of each series:
  the distance there is at most the last distance and at most every distance of the window,
  the radius that normalises it is the host's at the same distance from the end, and the
  angles and the age are those of the same snapshot. The series of a displaced subhalo have
  one length (\<open>displace_lengths\<close>).
\<close>

theorem perihelion_minimum:
  assumes d: "disp self = Some d"
    and ne: "ds d \<noteq> []" "Halo_host_rs tr d \<noteq> []"
    and len: "length (phis d) = length (ds d)" "length (ths d) = length (ds d)"
      "length (ts self) = length (ds d)"
  shows "\<exists>k<min (length (ds d)) (length (Halo_host_rs tr d)).
     (let l = min (length (ds d)) (length (Halo_host_rs tr d));
          a = length (ds d) - l + k;
          b = length (Halo_host_rs tr d) - l + k
      in perihelion tr self
           = Inr (ds d ! a, ds d ! a / Halo_host_rs tr d ! b, phis d ! a, ths d ! a, ts self ! a)
         \<and> ds d ! a \<le> last (ds d)
         \<and> (\<forall>j<l. ds d ! a \<le> ds d ! (length (ds d) - l + j)))"
proof -
  let ?n = "length (ds d)" and ?h = "Halo_host_rs tr d"
  let ?l = "min ?n (length ?h)"
  let ?w = "last_n (ds d) ?l"
  let ?k = "argmin ?w"
  have l0: "0 < ?l" using ne by simp
  have w: "?w = drop (?n - ?l) (ds d)" using l0 by (simp add: last_n_def)
  have lw: "length ?w = ?l" unfolding w by simp
  have wne: "?w \<noteq> []"
  proof
    assume "?w = []"
    then have "length ?w = 0" by simp
    then show False using lw l0 by simp
  qed
  have k: "?k < ?l" and least: "\<And>j. j < ?l \<Longrightarrow> ?w ! ?k \<le> ?w ! j"
    using argmin_least[OF wne] lw by auto
  have nth_w: "?w ! j = ds d ! (?n - ?l + j)" if "j < ?l" for j
    unfolding w using that by simp
  let ?a = "?n - ?l + ?k" and ?b = "length ?h - ?l + ?k"
  have g1: "py_get (ds d) (int ?k - int ?l) = Inr (ds d ! ?a)"
    by (rule py_get_window[OF k]) simp
  have g2: "py_get ?h (int ?k - int ?l) = Inr (?h ! ?b)"
    by (rule py_get_window[OF k]) simp
  have "py_get (phis d) (int ?k - int ?l) = Inr (phis d ! (length (phis d) - ?l + ?k))"
    by (rule py_get_window[OF k]) (simp add: len)
  then have g3: "py_get (phis d) (int ?k - int ?l) = Inr (phis d ! ?a)"
    by (simp only: len)
  have "py_get (ths d) (int ?k - int ?l) = Inr (ths d ! (length (ths d) - ?l + ?k))"
    by (rule py_get_window[OF k]) (simp add: len)
  then have g4: "py_get (ths d) (int ?k - int ?l) = Inr (ths d ! ?a)"
    by (simp only: len)
  have "py_get (ts self) (int ?k - int ?l) = Inr (ts self ! (length (ts self) - ?l + ?k))"
    by (rule py_get_window[OF k]) (simp add: len)
  then have g5: "py_get (ts self) (int ?k - int ?l) = Inr (ts self ! ?a)"
    by (simp only: len)
  have res: "perihelion tr self
      = Inr (ds d ! ?a, ds d ! ?a / ?h ! ?b, phis d ! ?a, ths d ! ?a, ts self ! ?a)"
    using wne by (simp add: perihelion_def d Let_def g1 g2 g3 g4 g5)
  have min_all: "\<forall>j<?l. ds d ! ?a \<le> ds d ! (?n - ?l + j)"
    using least nth_w k by simp
  have "?n - ?l + (?l - 1) = ?n - 1" using l0 by linarith
  moreover have "last (ds d) = ds d ! (?n - 1)"
    using ne(1) by (rule last_conv_nth)
  ultimately have "last (ds d) = ds d ! (?n - ?l + (?l - 1))"
    by (simp only:)
  then have le_last: "ds d ! ?a \<le> last (ds d)"
    using min_all l0 by (metis diff_less zero_less_one)
  show ?thesis
    using k res le_last min_all by (intro exI[of _ ?k]) (simp add: Let_def)
qed

theorem perihelion_minimum_witness:
  "\<exists>s d k. snd (displace vector_deriv_fd still_tree still_sub still_host) = Inr s
     \<and> disp s = Some d
     \<and> ds d \<noteq> []
     \<and> Halo_host_rs (fst (displace vector_deriv_fd still_tree still_sub still_host)) d \<noteq> []
     \<and> k < 2
     \<and> perihelion (fst (displace vector_deriv_fd still_tree still_sub still_host)) s
         = Inr (ds d ! k, ds d ! k / 2, phis d ! k, ths d ! k, ts s ! k)
     \<and> ds d ! k \<le> last (ds d)"
proof -
  let ?tr = "fst (displace vector_deriv_fd still_tree still_sub still_host)"
  obtain s where s: "snd (displace vector_deriv_fd still_tree still_sub still_host) = Inr s"
    using displace_result[of vector_deriv_fd still_tree still_sub still_host,
        OF length_vector_deriv_fd] by blast
  then obtain d where d: "disp s = Some d"
    using displace_snd_Inr[OF s] by auto
  note ls = displace_lengths[of vector_deriv_fd, OF length_vector_deriv_fd still_disj s d]
  have n: "length (ds d) = 2" using ls(1) by (simp add: still_rows)
  have hr: "Halo_host_rs ?tr d = [2, 2]"
    using ls(5) by (simp add: Halo_rs_def still_rows) (simp add: still_tree_def)
  have h1: "ds d \<noteq> []" using n by auto
  have h2: "Halo_host_rs ?tr d \<noteq> []" using hr by simp
  have h3: "length (phis d) = length (ds d)" "length (ths d) = length (ds d)"
    "length (ts s) = length (ds d)"
    using ls n by (simp_all add: still_rows still_sub_def)
  from perihelion_minimum[OF d h1 h2 h3] obtain k where
    k0: "k < min (length (ds d)) (length (Halo_host_rs ?tr d))" and
    body: "let l = min (length (ds d)) (length (Halo_host_rs ?tr d));
          a = length (ds d) - l + k;
          b = length (Halo_host_rs ?tr d) - l + k
      in perihelion ?tr s
           = Inr (ds d ! a, ds d ! a / Halo_host_rs ?tr d ! b, phis d ! a, ths d ! a, ts s ! a)
         \<and> ds d ! a \<le> last (ds d)
         \<and> (\<forall>j<l. ds d ! a \<le> ds d ! (length (ds d) - l + j))"
    by blast
  have k: "k < 2" using k0 by (simp add: n hr)
  have a: "length (ds d) - min (length (ds d)) (length [2, 2::real]) + k = k"
    by (simp add: n)
  have b: "length [2, 2::real] - min (length (ds d)) (length [2, 2::real]) + k = k"
    by (simp add: n)
  from body have
    p: "perihelion ?tr s = Inr (ds d ! k, ds d ! k / [2, 2] ! k, phis d ! k, ths d ! k, ts s ! k)"
    and m: "ds d ! k \<le> last (ds d)"
    unfolding Let_def hr a b by blast+
  have "[2, 2] ! k = (2::real)" using k by (cases k) auto
  then have "perihelion ?tr s = Inr (ds d ! k, ds d ! k / 2, phis d ! k, ths d ! k, ts s ! k)"
    using p by simp
  then show ?thesis using s d h1 h2 k m by blast
qed

section \<open>The loop over the hosts\<close>

lemma displace_sub_other_fields:
  assumes "displace_sub dv hid st sid = Inr st'"
  shows "b_r_sp st' = b_r_sp st" "b_r_max st' = b_r_max st" "b_r200m st' = b_r200m st"
    "b_r200c st' = b_r200c st" "edges st' = edges st" "sub_counts st' = sub_counts st"
  using assms
  by (auto simp: displace_sub_def split: option.splits sum.splits prod.splits)

lemma displace_subs_other_fields:
  assumes "displace_subs dv hid st sids = Inr st'"
  shows "b_r_sp st' = b_r_sp st \<and> b_r_max st' = b_r_max st \<and> b_r200m st' = b_r200m st
    \<and> b_r200c st' = b_r200c st \<and> edges st' = edges st \<and> sub_counts st' = sub_counts st"
  using assms
proof (induction sids arbitrary: st)
  case Nil
  then show ?case by simp
next
  case (Cons sid r)
  then obtain st1 where 1: "displace_sub dv hid st sid = Inr st1"
    and 2: "displace_subs dv hid st1 r = Inr st'"
    by (auto split: sum.splits)
  show ?case
    using Cons.IH[OF 2] displace_sub_other_fields[OF 1] by simp
qed

lemma host_step_cases:
  assumes "host_step dv st hid = Inr st'"
  obtains host0 st1 host ds0 msk where
    "hs st hid = Some host0"
    "displace_subs dv hid st (subs host0) = Inr st1"
    "host_mask st1 hid = Inr (host, ds0, msk)"
    "\<not> SUBHALO_LIM < length (filter id msk)
       \<Longrightarrow> st' = st1\<lparr>sub_counts := sub_counts st1 @ [length (filter id msk)]\<rparr>"
    "SUBHALO_LIM < length (filter id msk) \<Longrightarrow> \<exists>ra. rad host = Some ra \<and>
       st' = st1\<lparr>sub_counts := sub_counts st1 @ [length (filter id msk)],
         edges := Some (snd (histogram (select (map (\<lambda>d. d / r_sp ra * r_sp_scale) ds0) msk)
                               25 0.1 2)),
         b_r_sp := b_r_sp st1 @ [host_profile ds0 msk (length (filter id msk)) (r_sp ra) r_sp_scale
            (snd (histogram (select (map (\<lambda>d. d / r_sp ra * r_sp_scale) ds0) msk) 25 0.1 2))],
         b_r_max := b_r_max st1 @ [host_profile ds0 msk (length (filter id msk)) (r_max ra) r_max_scale
            (snd (histogram (select (map (\<lambda>d. d / r_sp ra * r_sp_scale) ds0) msk) 25 0.1 2))],
         b_r200m := b_r200m st1 @ [host_profile ds0 msk (length (filter id msk)) (r200m ra) r200m_scale
            (snd (histogram (select (map (\<lambda>d. d / r_sp ra * r_sp_scale) ds0) msk) 25 0.1 2))],
         b_r200c := b_r200c st1 @ [host_profile ds0 msk (length (filter id msk)) (r200c ra) r200c_scale
            (snd (histogram (select (map (\<lambda>d. d / r_sp ra * r_sp_scale) ds0) msk) 25 0.1 2))]\<rparr>"
  using assms unfolding host_step_def Let_def
  by (auto split: option.splits sum.splits prod.splits if_splits)

lemma length_bin_edges: "length (bin_edges n lo hi) = Suc n"
  by (simp add: bin_edges_def)

lemma nth_bin_edges:
  assumes "k \<le> n"
  shows "bin_edges n lo hi ! k = lo + real k * ((hi - lo) / real n)"
proof -
  have k: "k < Suc n" using assms by simp
  have "[0..<Suc n] ! k = k" using nth_upt[of 0 k "Suc n"] k by simp
  moreover have "k < length [0..<Suc n]" using k by simp
  ultimately show ?thesis unfolding bin_edges_def by (simp only: nth_map)
qed

lemma snd_histogram: "snd (histogram a n lo hi) = bin_edges n lo hi"
  by (simp add: histogram_def Let_def)

lemma length_fst_histogram: "length (fst (histogram a n lo hi)) = n"
  by (simp add: histogram_def Let_def)

lemma nth_fst_histogram:
  "k < n \<Longrightarrow> fst (histogram a n lo hi) ! k =
     length (filter (\<lambda>v. bin_edges n lo hi ! k \<le> v \<and>
        (if Suc k = n then v \<le> bin_edges n lo hi ! Suc k else v < bin_edges n lo hi ! Suc k)) a)"
  by (simp add: histogram_def Let_def)

lemma vol_diff: "vol a - vol b = 4 * pi / 3 * (a ^ 3 - b ^ 3)"
  by (simp add: vol_def algebra_simps)

lemma profile_nth:
  assumes "k < length vals" "length e = Suc (length vals)"
  shows "profile vals e n ! k = real (vals ! k) / (vol (e ! Suc k) - vol (e ! k)) / real n"
proof -
  have "tl e ! k = e ! Suc k" using assms by (simp add: nth_tl)
  moreover have "butlast e ! k = e ! k" using assms by (simp add: nth_butlast)
  ultimately show ?thesis using assms by (simp add: profile_def)
qed

lemma host_profile_density:
  assumes "k < 25"
  shows "host_profile ds0 msk n radius scale (bin_edges 25 0.1 2) ! k
       = spec_density (select (map (\<lambda>d. d / radius * scale) ds0) msk) n k"
proof -
  let ?a = "select (map (\<lambda>d. d / radius * scale) ds0) msk"
  have e0: "bin_edges 25 0.1 2 ! k = 0.1 + real k * ((2 - 0.1) / 25)"
    using assms by (simp add: nth_bin_edges)
  have e1: "bin_edges 25 0.1 2 ! Suc k = 0.1 + real (Suc k) * ((2 - 0.1) / 25)"
    using assms nth_bin_edges[of "Suc k" 25 "0.1" 2] by simp
  have "host_profile ds0 msk n radius scale (bin_edges 25 0.1 2) ! k
      = real (fst (histogram ?a 25 0.1 2) ! k)
        / (vol (bin_edges 25 0.1 2 ! Suc k) - vol (bin_edges 25 0.1 2 ! k)) / real n"
    unfolding host_profile_def using assms
    by (intro profile_nth) (simp_all add: length_fst_histogram length_bin_edges)
  also have "\<dots> = spec_density ?a n k"
    unfolding vol_diff nth_fst_histogram[OF assms] e0 e1 spec_density_def Let_def ..
  finally show ?thesis .
qed

lemma length_host_profile:
  "length (host_profile ds0 msk n radius scale (bin_edges 25 0.1 2)) = 25"
  by (simp add: host_profile_def profile_def length_fst_histogram length_bin_edges)

lemma host_profile_is_density:
  "density_profile (host_profile ds0 msk n radius scale (bin_edges 25 0.1 2))
     (select (map (\<lambda>d. d / radius * scale) ds0) msk) n"
  unfolding density_profile_def
  using length_host_profile host_profile_density by blast

text \<open>
  C6. One turn of the loop over the hosts appends the host's count \<open>n\<close> of masked-in
  subhalos to \<open>sub_counts\<close>. When \<open>n\<close> exceeds 40 each of the four stacks grows by one
  element, and that element is the host's density profile for the radius of the stack: 25
  bins, bin \<open>k\<close> holding the density of its shell among the masked distances divided by
  that radius. Otherwise, and so for \<open>n = 40\<close>, the four stacks are what they were.
\<close>

theorem host_step_stacks:
  assumes "host_step dv st hid = Inr st'"
  shows "\<exists>host0 st1 host ds0 msk.
      hs st hid = Some host0
      \<and> displace_subs dv hid st (subs host0) = Inr st1
      \<and> host_mask st1 hid = Inr (host, ds0, msk)
      \<and> sub_counts st' = sub_counts st @ [length (filter id msk)]
      \<and> (if 40 < length (filter id msk)
          then \<exists>ra p_sp p_max p_200m p_200c.
             rad host = Some ra
             \<and> b_r_sp st' = b_r_sp st @ [p_sp] \<and> b_r_max st' = b_r_max st @ [p_max]
             \<and> b_r200m st' = b_r200m st @ [p_200m] \<and> b_r200c st' = b_r200c st @ [p_200c]
             \<and> p_sp = host_profile ds0 msk (length (filter id msk)) (r_sp ra) r_sp_scale
                        (bin_edges 25 0.1 2)
             \<and> p_max = host_profile ds0 msk (length (filter id msk)) (r_max ra) r_max_scale
                        (bin_edges 25 0.1 2)
             \<and> p_200m = host_profile ds0 msk (length (filter id msk)) (r200m ra) r200m_scale
                        (bin_edges 25 0.1 2)
             \<and> p_200c = host_profile ds0 msk (length (filter id msk)) (r200c ra) r200c_scale
                        (bin_edges 25 0.1 2)
             \<and> density_profile p_sp (select (map (\<lambda>d. d / r_sp ra * r_sp_scale) ds0) msk)
                   (length (filter id msk))
             \<and> density_profile p_max (select (map (\<lambda>d. d / r_max ra * r_max_scale) ds0) msk)
                   (length (filter id msk))
             \<and> density_profile p_200m (select (map (\<lambda>d. d / r200m ra * r200m_scale) ds0) msk)
                   (length (filter id msk))
             \<and> density_profile p_200c (select (map (\<lambda>d. d / r200c ra * r200c_scale) ds0) msk)
                   (length (filter id msk))
          else b_r_sp st' = b_r_sp st \<and> b_r_max st' = b_r_max st
             \<and> b_r200m st' = b_r200m st \<and> b_r200c st' = b_r200c st)"
proof (rule host_step_cases[OF assms])
  fix host0 st1 host ds0 msk
  assume h: "hs st hid = Some host0"
    and d: "displace_subs dv hid st (subs host0) = Inr st1"
    and m: "host_mask st1 hid = Inr (host, ds0, msk)"
    and lo: "\<not> SUBHALO_LIM < length (filter id msk)
       \<Longrightarrow> st' = st1\<lparr>sub_counts := sub_counts st1 @ [length (filter id msk)]\<rparr>"
    and hi: "SUBHALO_LIM < length (filter id msk) \<Longrightarrow> \<exists>ra. rad host = Some ra \<and>
       st' = st1\<lparr>sub_counts := sub_counts st1 @ [length (filter id msk)],
         edges := Some (snd (histogram (select (map (\<lambda>d. d / r_sp ra * r_sp_scale) ds0) msk)
                               25 0.1 2)),
         b_r_sp := b_r_sp st1 @ [host_profile ds0 msk (length (filter id msk)) (r_sp ra) r_sp_scale
            (snd (histogram (select (map (\<lambda>d. d / r_sp ra * r_sp_scale) ds0) msk) 25 0.1 2))],
         b_r_max := b_r_max st1 @ [host_profile ds0 msk (length (filter id msk)) (r_max ra) r_max_scale
            (snd (histogram (select (map (\<lambda>d. d / r_sp ra * r_sp_scale) ds0) msk) 25 0.1 2))],
         b_r200m := b_r200m st1 @ [host_profile ds0 msk (length (filter id msk)) (r200m ra) r200m_scale
            (snd (histogram (select (map (\<lambda>d. d / r_sp ra * r_sp_scale) ds0) msk) 25 0.1 2))],
         b_r200c := b_r200c st1 @ [host_profile ds0 msk (length (filter id msk)) (r200c ra) r200c_scale
            (snd (histogram (select (map (\<lambda>d. d / r_sp ra * r_sp_scale) ds0) msk) 25 0.1 2))]\<rparr>"
  note fr = displace_subs_other_fields[OF d]
  let ?n = "length (filter id msk)"
  have "sub_counts st' = sub_counts st @ [?n]
      \<and> (if 40 < ?n
          then \<exists>ra p_sp p_max p_200m p_200c.
             rad host = Some ra
             \<and> b_r_sp st' = b_r_sp st @ [p_sp] \<and> b_r_max st' = b_r_max st @ [p_max]
             \<and> b_r200m st' = b_r200m st @ [p_200m] \<and> b_r200c st' = b_r200c st @ [p_200c]
             \<and> p_sp = host_profile ds0 msk ?n (r_sp ra) r_sp_scale (bin_edges 25 0.1 2)
             \<and> p_max = host_profile ds0 msk ?n (r_max ra) r_max_scale (bin_edges 25 0.1 2)
             \<and> p_200m = host_profile ds0 msk ?n (r200m ra) r200m_scale (bin_edges 25 0.1 2)
             \<and> p_200c = host_profile ds0 msk ?n (r200c ra) r200c_scale (bin_edges 25 0.1 2)
             \<and> density_profile p_sp (select (map (\<lambda>d. d / r_sp ra * r_sp_scale) ds0) msk) ?n
             \<and> density_profile p_max (select (map (\<lambda>d. d / r_max ra * r_max_scale) ds0) msk) ?n
             \<and> density_profile p_200m (select (map (\<lambda>d. d / r200m ra * r200m_scale) ds0) msk) ?n
             \<and> density_profile p_200c (select (map (\<lambda>d. d / r200c ra * r200c_scale) ds0) msk) ?n
          else b_r_sp st' = b_r_sp st \<and> b_r_max st' = b_r_max st
             \<and> b_r200m st' = b_r200m st \<and> b_r200c st' = b_r200c st)"
  proof (cases "SUBHALO_LIM < ?n")
    case True
    from hi[OF True] obtain ra where ra: "rad host = Some ra" and
      st': "st' = st1\<lparr>sub_counts := sub_counts st1 @ [length (filter id msk)],
         edges := Some (snd (histogram (select (map (\<lambda>d. d / r_sp ra * r_sp_scale) ds0) msk)
                               25 0.1 2)),
         b_r_sp := b_r_sp st1 @ [host_profile ds0 msk (length (filter id msk)) (r_sp ra) r_sp_scale
            (snd (histogram (select (map (\<lambda>d. d / r_sp ra * r_sp_scale) ds0) msk) 25 0.1 2))],
         b_r_max := b_r_max st1 @ [host_profile ds0 msk (length (filter id msk)) (r_max ra) r_max_scale
            (snd (histogram (select (map (\<lambda>d. d / r_sp ra * r_sp_scale) ds0) msk) 25 0.1 2))],
         b_r200m := b_r200m st1 @ [host_profile ds0 msk (length (filter id msk)) (r200m ra) r200m_scale
            (snd (histogram (select (map (\<lambda>d. d / r_sp ra * r_sp_scale) ds0) msk) 25 0.1 2))],
         b_r200c := b_r200c st1 @ [host_profile ds0 msk (length (filter id msk)) (r200c ra) r200c_scale
            (snd (histogram (select (map (\<lambda>d. d / r_sp ra * r_sp_scale) ds0) msk) 25 0.1 2))]\<rparr>"
      by (elim exE conjE)
    have cond: "40 < ?n" using True by (simp add: SUBHALO_LIM_def)
    have c: "sub_counts st' = sub_counts st @ [?n]" using fr by (simp add: st')
    have b1: "b_r_sp st' = b_r_sp st
        @ [host_profile ds0 msk ?n (r_sp ra) r_sp_scale (bin_edges 25 0.1 2)]"
      and b2: "b_r_max st' = b_r_max st
        @ [host_profile ds0 msk ?n (r_max ra) r_max_scale (bin_edges 25 0.1 2)]"
      and b3: "b_r200m st' = b_r200m st
        @ [host_profile ds0 msk ?n (r200m ra) r200m_scale (bin_edges 25 0.1 2)]"
      and b4: "b_r200c st' = b_r200c st
        @ [host_profile ds0 msk ?n (r200c ra) r200c_scale (bin_edges 25 0.1 2)]"
      using fr by (simp_all add: st' snd_histogram)
    have body: "\<exists>ra p_sp p_max p_200m p_200c.
             rad host = Some ra
             \<and> b_r_sp st' = b_r_sp st @ [p_sp] \<and> b_r_max st' = b_r_max st @ [p_max]
             \<and> b_r200m st' = b_r200m st @ [p_200m] \<and> b_r200c st' = b_r200c st @ [p_200c]
             \<and> p_sp = host_profile ds0 msk ?n (r_sp ra) r_sp_scale (bin_edges 25 0.1 2)
             \<and> p_max = host_profile ds0 msk ?n (r_max ra) r_max_scale (bin_edges 25 0.1 2)
             \<and> p_200m = host_profile ds0 msk ?n (r200m ra) r200m_scale (bin_edges 25 0.1 2)
             \<and> p_200c = host_profile ds0 msk ?n (r200c ra) r200c_scale (bin_edges 25 0.1 2)
             \<and> density_profile p_sp (select (map (\<lambda>d. d / r_sp ra * r_sp_scale) ds0) msk) ?n
             \<and> density_profile p_max (select (map (\<lambda>d. d / r_max ra * r_max_scale) ds0) msk) ?n
             \<and> density_profile p_200m (select (map (\<lambda>d. d / r200m ra * r200m_scale) ds0) msk) ?n
             \<and> density_profile p_200c (select (map (\<lambda>d. d / r200c ra * r200c_scale) ds0) msk) ?n"
      apply (rule exI[of _ ra])
      apply (rule exI[of _ "host_profile ds0 msk ?n (r_sp ra) r_sp_scale (bin_edges 25 0.1 2)"])
      apply (rule exI[of _ "host_profile ds0 msk ?n (r_max ra) r_max_scale (bin_edges 25 0.1 2)"])
      apply (rule exI[of _ "host_profile ds0 msk ?n (r200m ra) r200m_scale (bin_edges 25 0.1 2)"])
      apply (rule exI[of _ "host_profile ds0 msk ?n (r200c ra) r200c_scale (bin_edges 25 0.1 2)"])
      apply (intro conjI ra b1 b2 b3 b4 refl host_profile_is_density)
      done
    show ?thesis unfolding if_P[OF cond] using c body by (rule conjI)
  next
    case False
    from lo[OF False] show ?thesis using False fr by (simp add: SUBHALO_LIM_def)
  qed
  then show ?thesis using h d m by blast
qed

text \<open>
  C7. For a host that qualifies, bin \<open>k\<close> of each of the four profiles appended is the
  count of the bin divided by the volume \<open>4 pi / 3 (r_outer^3 - r_inner^3)\<close> of its shell
  and by the host's count \<open>n\<close> (\<open>spec_density\<close>), the values counted being the masked
  distances divided by the radius of the definition and multiplied by its scale.
\<close>

theorem host_step_profile:
  assumes step: "host_step dv st hid = Inr st'"
    and h: "hs st hid = Some host0"
    and d: "displace_subs dv hid st (subs host0) = Inr st1"
    and m: "host_mask st1 hid = Inr (host, ds0, msk)"
    and n: "SUBHALO_LIM < length (filter id msk)"
    and k: "k < 25"
  shows "\<exists>ra. rad host = Some ra
    \<and> edges st' = Some (bin_edges 25 0.1 2)
    \<and> last (b_r_sp st') ! k
        = spec_density (select (map (\<lambda>d. d / r_sp ra * r_sp_scale) ds0) msk)
            (length (filter id msk)) k
    \<and> last (b_r_max st') ! k
        = spec_density (select (map (\<lambda>d. d / r_max ra * r_max_scale) ds0) msk)
            (length (filter id msk)) k
    \<and> last (b_r200m st') ! k
        = spec_density (select (map (\<lambda>d. d / r200m ra * r200m_scale) ds0) msk)
            (length (filter id msk)) k
    \<and> last (b_r200c st') ! k
        = spec_density (select (map (\<lambda>d. d / r200c ra * r200c_scale) ds0) msk)
            (length (filter id msk)) k"
proof -
  from step h d m n obtain ra where ra: "rad host = Some ra"
    and st': "st' = st1\<lparr>sub_counts := sub_counts st1 @ [length (filter id msk)],
         edges := Some (bin_edges 25 0.1 2),
         b_r_sp := b_r_sp st1 @ [host_profile ds0 msk (length (filter id msk)) (r_sp ra) r_sp_scale
            (bin_edges 25 0.1 2)],
         b_r_max := b_r_max st1 @ [host_profile ds0 msk (length (filter id msk)) (r_max ra) r_max_scale
            (bin_edges 25 0.1 2)],
         b_r200m := b_r200m st1 @ [host_profile ds0 msk (length (filter id msk)) (r200m ra) r200m_scale
            (bin_edges 25 0.1 2)],
         b_r200c := b_r200c st1 @ [host_profile ds0 msk (length (filter id msk)) (r200c ra) r200c_scale
            (bin_edges 25 0.1 2)]\<rparr>"
    unfolding host_step_def Let_def
    by (auto simp: snd_histogram split: option.splits)
  show ?thesis
    using ra by (simp add: st' host_profile_density[OF k])
qed

lemma host_step_counts_agree:
  assumes "host_step dv st hid = Inr st'" "counts_agree st"
  shows "counts_agree st' \<and> length (sub_counts st') = Suc (length (sub_counts st))"
proof (rule host_step_cases[OF assms(1)])
  fix host0 st1 host ds0 msk
  assume d: "displace_subs dv hid st (subs host0) = Inr st1"
    and lo: "\<not> SUBHALO_LIM < length (filter id msk)
       \<Longrightarrow> st' = st1\<lparr>sub_counts := sub_counts st1 @ [length (filter id msk)]\<rparr>"
    and hi: "SUBHALO_LIM < length (filter id msk) \<Longrightarrow> \<exists>ra. rad host = Some ra \<and>
       st' = st1\<lparr>sub_counts := sub_counts st1 @ [length (filter id msk)],
         edges := Some (snd (histogram (select (map (\<lambda>d. d / r_sp ra * r_sp_scale) ds0) msk)
                               25 0.1 2)),
         b_r_sp := b_r_sp st1 @ [host_profile ds0 msk (length (filter id msk)) (r_sp ra) r_sp_scale
            (snd (histogram (select (map (\<lambda>d. d / r_sp ra * r_sp_scale) ds0) msk) 25 0.1 2))],
         b_r_max := b_r_max st1 @ [host_profile ds0 msk (length (filter id msk)) (r_max ra) r_max_scale
            (snd (histogram (select (map (\<lambda>d. d / r_sp ra * r_sp_scale) ds0) msk) 25 0.1 2))],
         b_r200m := b_r200m st1 @ [host_profile ds0 msk (length (filter id msk)) (r200m ra) r200m_scale
            (snd (histogram (select (map (\<lambda>d. d / r_sp ra * r_sp_scale) ds0) msk) 25 0.1 2))],
         b_r200c := b_r200c st1 @ [host_profile ds0 msk (length (filter id msk)) (r200c ra) r200c_scale
            (snd (histogram (select (map (\<lambda>d. d / r_sp ra * r_sp_scale) ds0) msk) 25 0.1 2))]\<rparr>"
  note fr = displace_subs_other_fields[OF d]
  show ?thesis
  proof (cases "SUBHALO_LIM < length (filter id msk)")
    case True
    from hi[OF True] show ?thesis
      using True fr assms(2) by (auto simp: counts_agree_def)
  next
    case False
    from lo[OF False] show ?thesis
      using False fr assms(2) by (auto simp: counts_agree_def)
  qed
qed

lemma host_loop_counts_agree:
  assumes "host_loop dv st hosts = Inr st'" "counts_agree st"
  shows "counts_agree st' \<and> length (sub_counts st') = length (sub_counts st) + length hosts"
  using assms
proof (induction hosts arbitrary: st)
  case Nil
  then show ?case by simp
next
  case (Cons hid r)
  then obtain st1 where 1: "host_step dv st hid = Inr st1"
    and 2: "host_loop dv st1 r = Inr st'"
    by (auto split: sum.splits)
  show ?case
    using Cons.IH[OF 2] host_step_counts_agree[OF 1 Cons.prems(2)] by simp
qed

text \<open>
  C10. The loop over the hosts followed by the bin centres returns them exactly when the
  loop ends and a recorded count exceeds the limit. \<open>sub_counts\<close> holds one count per
  host. When the loop ends and no count exceeds the limit, \<open>edges\<close> is still \<open>None\<close> and
  the bin centres raise \<open>TypeError\<close>.
\<close>

theorem aggregate_needs_qualifying_host:
  "((\<exists>c. aggregate dv tr h hosts = Inr (c, st'))
      \<longleftrightarrow> host_loop dv (init_state tr h) hosts = Inr st'
          \<and> (\<exists>n \<in> set (sub_counts st'). SUBHALO_LIM < n))
   \<and> (host_loop dv (init_state tr h) hosts = Inr st'
        \<longrightarrow> length (sub_counts st') = length hosts)
   \<and> (host_loop dv (init_state tr h) hosts = Inr st'
        \<and> (\<forall>n \<in> set (sub_counts st'). n \<le> SUBHALO_LIM)
        \<longrightarrow> edges st' = None \<and> bin_centers (edges st') = Inl TypeError
            \<and> aggregate dv tr h hosts = Inl TypeError)"
proof -
  have init: "counts_agree (init_state tr h)"
    by (simp add: counts_agree_def init_state_def)
  have key: "(edges st' = None) = (\<forall>n \<in> set (sub_counts st'). n \<le> SUBHALO_LIM)
      \<and> length (sub_counts st') = length hosts"
    if "host_loop dv (init_state tr h) hosts = Inr st'"
    using host_loop_counts_agree[OF that init]
    by (simp add: counts_agree_def list_all_iff init_state_def)
  show ?thesis
  proof (cases "host_loop dv (init_state tr h) hosts = Inr st'")
    case True
    show ?thesis
      using True key[OF True]
      by (auto simp: aggregate_def bin_centers_def not_le split: option.splits)
  next
    case False
    then show ?thesis
      by (auto simp: aggregate_def split: sum.splits)
  qed
qed

lemma collect_nth:
  assumes "collect st sids = Inr cs"
  shows "length cs = length sids \<and> (\<forall>k<length sids. collect_sub st (sids ! k) = Inr (cs ! k))"
  using assms
proof (induction sids arbitrary: cs)
  case Nil
  then show ?case by simp
next
  case (Cons sid r)
  then obtain c cr where c: "collect_sub st sid = Inr c" and cr: "collect st r = Inr cr"
    and cs: "cs = c # cr"
    by (auto split: sum.splits)
  show ?case
    using Cons.IH[OF cr] c cs by (auto simp: nth_Cons')
qed

lemma py_get_last_Inr:
  assumes "py_get a (- 1) = Inr v"
  shows "a \<noteq> [] \<and> v = last a"
proof -
  have "a \<noteq> []" using assms by (auto simp: py_get_def)
  then show ?thesis using assms py_get_last[of a] by simp
qed

lemma mask_of_nth:
  assumes "k < length xps" "length xs0 = length xps" "length ds0 = length xps"
  shows "mask_of xps xs0 ds0 ! k
     \<longleftrightarrow> \<not> eps_eq (xps ! k) (xs0 ! k) \<and> xps ! k < 1 \<and> ds0 ! k > 0"
  using assms by (simp add: mask_of_def)

lemma collect_sub_Inr:
  assumes "collect_sub st sid = Inr c"
  shows "\<exists>sub d dp xp ph th t.
      hs st sid = Some sub \<and> disp sub = Some d
      \<and> perihelion (tree st) sub = Inr (dp, xp, ph, th, t)
      \<and> ds d \<noteq> [] \<and> fst c = last (ds d) \<and> fst (snd (snd c)) = xp"
proof -
  have "\<exists>sub. hs st sid = Some sub"
  proof (cases "hs st sid")
    case None
    then have "collect_sub st sid = Inl KeyError" by (simp add: collect_sub_def)
    with assms show ?thesis by simp
  next
    case (Some sub)
    then show ?thesis by blast
  qed
  then obtain sub where sub: "hs st sid = Some sub" ..
  have "\<exists>pr. perihelion (tree st) sub = Inr pr"
  proof (cases "perihelion (tree st) sub")
    case (Inl e)
    then have "collect_sub st sid = Inl e" using sub by (simp add: collect_sub_def)
    with assms show ?thesis by simp
  next
    case (Inr pr)
    then show ?thesis by blast
  qed
  then obtain pr where p0: "perihelion (tree st) sub = Inr pr" ..
  obtain dp xp ph th t where pr: "pr = (dp, xp, ph, th, t)"
    by (rule prod_cases5)
  have p: "perihelion (tree st) sub = Inr (dp, xp, ph, th, t)" using p0 pr by simp
  have "\<exists>d. disp sub = Some d"
  proof (cases "disp sub")
    case None
    then have "collect_sub st sid = Inl AttributeError" using sub p by (simp add: collect_sub_def)
    with assms show ?thesis by simp
  next
    case (Some d)
    then show ?thesis by blast
  qed
  then obtain d where d: "disp sub = Some d" ..
  have "\<exists>v. py_get (ds d) (- 1) = Inr v"
  proof (cases "py_get (ds d) (- 1)")
    case (Inl e)
    then have "collect_sub st sid = Inl e" using sub p d by (simp add: collect_sub_def)
    with assms show ?thesis by simp
  next
    case (Inr v)
    then show ?thesis by blast
  qed
  then obtain d_now where dn: "py_get (ds d) (- 1) = Inr d_now" ..
  have "\<exists>v. py_get (phis d) (- 1) = Inr v"
  proof (cases "py_get (phis d) (- 1)")
    case (Inl e)
    then have "collect_sub st sid = Inl e" using sub p d dn by (simp add: collect_sub_def)
    with assms show ?thesis by simp
  next
    case (Inr v)
    then show ?thesis by blast
  qed
  then obtain ph_now where pn: "py_get (phis d) (- 1) = Inr ph_now" ..
  have "\<exists>v. py_get (ths d) (- 1) = Inr v"
  proof (cases "py_get (ths d) (- 1)")
    case (Inl e)
    then have "collect_sub st sid = Inl e" using sub p d dn pn by (simp add: collect_sub_def)
    with assms show ?thesis by simp
  next
    case (Inr v)
    then show ?thesis by blast
  qed
  then obtain th_now where tn: "py_get (ths d) (- 1) = Inr th_now" ..
  have "collect_sub st sid = Inr (d_now, dp, xp, ph_now, th_now, t)"
    using sub p d dn pn tn by (simp add: collect_sub_def)
  with assms have c: "c = (d_now, dp, xp, ph_now, th_now, t)" by simp
  have dd: "ds d \<noteq> []" "d_now = last (ds d)"
    using py_get_last_Inr[OF dn] by simp_all
  have "hs st sid = Some sub \<and> disp sub = Some d
      \<and> perihelion (tree st) sub = Inr (dp, xp, ph, th, t)
      \<and> ds d \<noteq> [] \<and> fst c = last (ds d) \<and> fst (snd (snd c)) = xp"
    using sub d p dd c by simp
  then show ?thesis by (intro exI)
qed

text \<open>
  C4. The mask of a host has one entry per subhalo of \<open>host.subs\<close>. The entry of subhalo
  \<open>k\<close> is true exactly when the normalised distance \<open>xp\<close> that its perihelion returns is
  below 1, its last distance is positive, and \<open>xp\<close> differs by at least 0.01 from
  the last distance divided by the host's last radius.
\<close>

theorem host_mask_iff:
  assumes m: "host_mask st hid = Inr (host, ds0, msk)" and k: "k < length (subs host)"
  shows "\<exists>sub d dp xp ph th t.
      hs st hid = Some host
      \<and> hs st (subs host ! k) = Some sub \<and> disp sub = Some d
      \<and> perihelion (tree st) sub = Inr (dp, xp, ph, th, t)
      \<and> ds d \<noteq> [] \<and> Halo_rs (tree st) host \<noteq> []
      \<and> length msk = length (subs host) \<and> length ds0 = length (subs host)
      \<and> ds0 ! k = last (ds d)
      \<and> (msk ! k \<longleftrightarrow>
           xp < 1 \<and> last (ds d) > 0
           \<and> \<bar>xp - last (ds d) / last (Halo_rs (tree st) host)\<bar> \<ge> 0.01)"
proof -
  from m have h: "hs st hid = Some host"
    by (cases "hs st hid") (auto simp: host_mask_def Let_def split: sum.splits)
  from m h obtain cs where c: "collect st (subs host) = Inr cs"
    by (cases "collect st (subs host)") (simp_all add: host_mask_def)
  from m h c obtain rl where rl: "py_get (Halo_rs (tree st) host) (- 1) = Inr rl"
    by (cases "py_get (Halo_rs (tree st) host) (- 1)") (simp_all add: host_mask_def)
  from m h c rl have ds0: "ds0 = map fst cs"
    and msk: "msk = mask_of (map (\<lambda>c. fst (snd (snd c))) cs) (map (\<lambda>d. d / rl) (map fst cs))
        (map fst cs)"
    by (auto simp: host_mask_def Let_def)
  from collect_nth[OF c] k have len: "length cs = length (subs host)"
    and ck: "collect_sub st (subs host ! k) = Inr (cs ! k)"
    by auto
  have r: "Halo_rs (tree st) host \<noteq> []" "rl = last (Halo_rs (tree st) host)"
    using py_get_last_Inr[OF rl] by simp_all
  from collect_sub_Inr[OF ck] obtain sub d dp xp ph th t where
    sub: "hs st (subs host ! k) = Some sub" and d: "disp sub = Some d"
    and p: "perihelion (tree st) sub = Inr (dp, xp, ph, th, t)"
    and dd: "ds d \<noteq> []" and c1: "fst (cs ! k) = last (ds d)"
    and c3: "fst (snd (snd (cs ! k))) = xp"
    by blast
  have kk: "k < length cs" using k len by simp
  have mk: "msk ! k \<longleftrightarrow> \<not> eps_eq xp (last (ds d) / rl) \<and> xp < 1 \<and> last (ds d) > 0"
    unfolding msk using kk c1 c3 by (subst mask_of_nth) simp_all
  have e: "(\<not> eps_eq xp y) = (\<bar>xp - y\<bar> \<ge> 0.01)" for y
    by (simp add: eps_eq_def Let_def not_less)
  have iff: "msk ! k \<longleftrightarrow> xp < 1 \<and> last (ds d) > 0
           \<and> \<bar>xp - last (ds d) / last (Halo_rs (tree st) host)\<bar> \<ge> 0.01"
    unfolding mk r(2) e by blast
  have l1: "length msk = length (subs host)" and l2: "length ds0 = length (subs host)"
    by (simp_all add: msk ds0 len mask_of_def)
  have n: "ds0 ! k = last (ds d)" using kk c1 by (simp add: ds0)
  have "hs st hid = Some host
      \<and> hs st (subs host ! k) = Some sub \<and> disp sub = Some d
      \<and> perihelion (tree st) sub = Inr (dp, xp, ph, th, t)
      \<and> ds d \<noteq> [] \<and> Halo_rs (tree st) host \<noteq> []
      \<and> length msk = length (subs host) \<and> length ds0 = length (subs host)
      \<and> ds0 ! k = last (ds d)
      \<and> (msk ! k \<longleftrightarrow>
           xp < 1 \<and> last (ds d) > 0
           \<and> \<bar>xp - last (ds d) / last (Halo_rs (tree st) host)\<bar> \<ge> 0.01)"
    using h sub d p dd r(1) l1 l2 n iff by (intro conjI)
  then show ?thesis by (intro exI)
qed

section \<open>The loop on a host with 41 subhalos, and on one with none\<close>

lemma displace_eq_displaced_of:
  assumes "\<And>t q. length (dv t q) = length q"
  shows "displace dv tr self host =
     (displace_loop tr self host,
      Inr (self\<lparr>disp := Some (displaced_of dv (displace_loop tr self host) self host)\<rparr>))"
proof -
  have "snd (displace dv tr self host)
      = Inr (self\<lparr>disp := Some (displaced_of dv (displace_loop tr self host) self host)\<rparr>)"
    unfolding displace_result[of dv, OF assms] displaced_of_def Let_def ..
  then show ?thesis
    using fst_displace[of dv tr self host] by (simp add: prod_eq_iff)
qed

lemma displaced_of_disp [simp]:
  "displaced_of dv tr (self\<lparr>disp := x\<rparr>) host = displaced_of dv tr self host"
  by (simp add: displaced_of_def Halo_pos_def Halo_scales_def Halo_rows_def)

lemma displace_body_disp:
  "displace_body (self\<lparr>disp := x\<rparr>) host = displace_body self host"
  by (intro ext) (simp add: displace_body_def)

lemma displace_loop_disp [simp]:
  "displace_loop tr (self\<lparr>disp := x\<rparr>) host = displace_loop tr self host"
  by (simp add: displace_loop_def displace_body_disp Halo_rows_def)

lemma displace_loop_fixed:
  assumes disj: "disjoint_slices tr self host"
    and fx: "\<And>i. i < length (Halo_rows tr self) \<Longrightarrow> i < length (Halo_rows tr host) \<Longrightarrow>
      disp_row (tr ! (h_start self + neg_index (length (Halo_rows tr self)) i))
               (tr ! (h_start host + neg_index (length (Halo_rows tr host)) i))
      = tr ! (h_start self + neg_index (length (Halo_rows tr self)) i)"
  shows "displace_loop tr self host = tr"
proof (rule nth_equalityI)
  show "length (displace_loop tr self host) = length tr"
    using disj by (rule displace_loop_length)
next
  fix j assume "j < length (displace_loop tr self host)"
  show "displace_loop tr self host ! j = tr ! j"
  proof (cases "\<exists>i. i < length (Halo_rows tr self) \<and> i < length (Halo_rows tr host)
      \<and> j = h_start self + neg_index (length (Halo_rows tr self)) i")
    case True
    then obtain i where i: "i < length (Halo_rows tr self)" "i < length (Halo_rows tr host)"
      and j: "j = h_start self + neg_index (length (Halo_rows tr self)) i"
      by blast
    show ?thesis
      unfolding j using displace_loop_touched[OF disj i] fx[OF i] by simp
  next
    case False
    then show ?thesis
      by (intro displace_loop_untouched[OF disj]) blast
  qed
qed

lemma big_rows:
  "Halo_rows big_tree still_sub = [big_tree ! 0, big_tree ! 1]"
  "Halo_rows big_tree big_host = [big_tree ! 3, big_tree ! 4]"
  by (simp_all add: Halo_rows_def slice_def big_tree_def still_sub_def big_host_def)

lemma big_bounds:
  "h_start still_sub = 0" "h_end still_sub = 2" "h_start big_host = 3" "h_end big_host = 5"
  "ts still_sub = [1, 2]"
  by (simp_all add: still_sub_def big_host_def)

lemma big_disj: "disjoint_slices big_tree still_sub big_host"
  by (simp add: disjoint_slices_def big_rows big_bounds)

lemma big_loop: "displace_loop big_tree still_sub big_host = big_tree"
proof (rule displace_loop_fixed[OF big_disj])
  fix i
  assume "i < length (Halo_rows big_tree still_sub)" "i < length (Halo_rows big_tree big_host)"
  then have "i = 0 \<or> i = 1" by (auto simp: big_rows)
  then show "disp_row
      (big_tree ! (h_start still_sub + neg_index (length (Halo_rows big_tree still_sub)) i))
      (big_tree ! (h_start big_host + neg_index (length (Halo_rows big_tree big_host)) i))
      = big_tree ! (h_start still_sub + neg_index (length (Halo_rows big_tree still_sub)) i)"
    unfolding big_rows big_bounds
    by (auto simp: neg_index_def big_tree_def disp_row_def wrap1_def L_def)
qed

lemma sqrt9: "sqrt 9 = 3"
  using real_sqrt_abs[of 3] by simp

lemma big_sub_attrs:
  "disp big_sub = Some (displaced_of vector_deriv_fd big_tree still_sub big_host)"
  "ts big_sub = [1, 2]"
  "ds (displaced_of vector_deriv_fd big_tree still_sub big_host) = [1, 3]"
  "phis (displaced_of vector_deriv_fd big_tree still_sub big_host) = [0, 0]"
  "ths (displaced_of vector_deriv_fd big_tree still_sub big_host) = [0, 0]"
  "host_rs (displaced_of vector_deriv_fd big_tree still_sub big_host) = (3, 5)"
  unfolding big_sub_def displaced_of_def Let_def Halo_pos_def big_rows big_bounds
  by (simp_all add: big_tree_def sqrt9 arctan2_def big_bounds)

lemma big_perihelion: "perihelion big_tree big_sub = Inr (1, 1 / 2, 0, 0, 1)"
proof -
  have hr: "Halo_host_rs big_tree (displaced_of vector_deriv_fd big_tree still_sub big_host) = [2, 2]"
    unfolding Halo_host_rs_def big_sub_attrs by (simp add: slice_def big_tree_def)
  show ?thesis
    unfolding perihelion_def big_sub_attrs(1) option.case Let_def hr big_sub_attrs
    by (simp add: last_n_def py_get_def)
qed

lemma big_collect_sub: "collect_sub big_displaced 5 = Inr (3, 1, 1 / 2, 0, 0, 1)"
proof -
  have h: "hs big_displaced 5 = Some big_sub" "tree big_displaced = big_tree"
    by (simp_all add: big_displaced_def init_state_def)
  show ?thesis
    unfolding collect_sub_def h option.case big_perihelion big_sub_attrs
    by (simp add: py_get_def)
qed

lemma collect_replicate:
  "collect_sub st sid = Inr c \<Longrightarrow> collect st (replicate n sid) = Inr (replicate n c)"
  by (induction n) simp_all

lemma big_mask:
  "host_mask big_displaced 7 = Inr (big_host, replicate 41 3, replicate 41 True)"
proof -
  have h: "hs big_displaced 7 = Some big_host" "tree big_displaced = big_tree"
    by (simp_all add: big_displaced_def init_state_def big_hs_def)
  have s: "subs big_host = replicate 41 5" by (simp add: big_host_def)
  have r: "py_get (Halo_rs big_tree big_host) (- 1) = Inr 2"
    by (simp add: Halo_rs_def big_rows py_get_def) (simp add: big_tree_def)
  show ?thesis
    unfolding host_mask_def h option.case s collect_replicate[OF big_collect_sub] sum.case r
    by (simp add: Let_def mask_of_def zip_replicate eps_eq_def)
qed

lemma big_displace:
  "displace vector_deriv_fd big_tree (still_sub\<lparr>disp := x\<rparr>) big_host = (big_tree, Inr big_sub)"
  unfolding displace_eq_displaced_of[of vector_deriv_fd, OF length_vector_deriv_fd]
  by (simp add: big_loop big_sub_def)

lemma big_displace_sub_first: "displace_sub vector_deriv_fd 7 big_state 5 = Inr big_displaced"
proof -
  have h: "hs big_state 7 = Some big_host" "hs big_state 5 = Some (still_sub\<lparr>disp := None\<rparr>)"
    "tree big_state = big_tree"
    by (simp_all add: big_state_def init_state_def big_hs_def still_sub_def)
  show ?thesis
    unfolding displace_sub_def h option.case big_displace
    by (simp add: big_state_def big_displaced_def init_state_def)
qed

lemma big_displace_sub_again: "displace_sub vector_deriv_fd 7 big_displaced 5 = Inr big_displaced"
proof -
  have h: "hs big_displaced 7 = Some big_host"
    "hs big_displaced 5 = Some (still_sub\<lparr>disp :=
        Some (displaced_of vector_deriv_fd big_tree still_sub big_host)\<rparr>)"
    "tree big_displaced = big_tree"
    by (simp_all add: big_displaced_def init_state_def big_hs_def big_sub_def)
  show ?thesis
    unfolding displace_sub_def h option.case big_displace
    by (simp add: big_displaced_def init_state_def)
qed

lemma big_displace_subs_again:
  "displace_subs vector_deriv_fd 7 big_displaced (replicate n 5) = Inr big_displaced"
  by (induction n) (simp_all add: big_displace_sub_again)

lemma big_displace_subs:
  "displace_subs vector_deriv_fd 7 big_state (subs big_host) = Inr big_displaced"
proof -
  have "subs big_host = 5 # replicate 40 5"
    by (simp add: big_host_def replicate_Suc[symmetric] del: replicate_Suc)
  then show ?thesis
    by (simp add: big_displace_sub_first big_displace_subs_again)
qed

lemma big_count: "length (filter id (replicate 41 True)) = 41"
  by simp

lemma big_host_step:
  "\<exists>st'. host_step vector_deriv_fd big_state 7 = Inr st' \<and> sub_counts st' = [41]"
proof -
  have h: "hs big_state 7 = Some big_host"
    by (simp add: big_state_def init_state_def big_hs_def)
  have c: "sub_counts big_displaced = []"
    by (simp add: big_displaced_def init_state_def)
  have r: "\<exists>ra. rad big_host = Some ra" by (simp add: big_host_def)
  then obtain ra where ra: "rad big_host = Some ra" ..
  show ?thesis
    unfolding host_step_def h option.case big_displace_subs sum.case big_mask prod.case
      Let_def big_count
    by (simp add: SUBHALO_LIM_def ra c)
qed

lemma lone_host_step:
  "host_step vector_deriv_fd lone_state 7 = Inr (lone_state\<lparr>sub_counts := [0]\<rparr>)"
proof -
  have h: "hs lone_state 7 = Some (big_host\<lparr>subs := []\<rparr>)" "tree lone_state = big_tree"
    "sub_counts lone_state = []"
    by (simp_all add: lone_state_def init_state_def)
  have r: "py_get (Halo_rs big_tree (big_host\<lparr>subs := []\<rparr>)) (- 1) = Inr 2"
    by (simp add: Halo_rs_def Halo_rows_def slice_def py_get_def big_host_def big_tree_def)
  have m: "host_mask lone_state 7 = Inr (big_host\<lparr>subs := []\<rparr>, [], [])"
    unfolding host_mask_def h option.case by (simp add: r mask_of_def)
  show ?thesis
    unfolding host_step_def h option.case by (simp add: m h SUBHALO_LIM_def)
qed

theorem host_mask_iff_witness:
  "host_mask big_displaced 7 = Inr (big_host, replicate 41 3, replicate 41 True)
   \<and> 0 < length (subs big_host)
   \<and> (\<exists>sub d dp xp ph th t.
        hs big_displaced (subs big_host ! 0) = Some sub \<and> disp sub = Some d
        \<and> perihelion (tree big_displaced) sub = Inr (dp, xp, ph, th, t)
        \<and> (replicate 41 True ! 0 \<longleftrightarrow>
             xp < 1 \<and> last (ds d) > 0
             \<and> \<bar>xp - last (ds d) / last (Halo_rs (tree big_displaced) big_host)\<bar> \<ge> 0.01))"
proof -
  have k: "0 < length (subs big_host)" by (simp add: big_host_def)
  from host_mask_iff[OF big_mask k] obtain sub d dp xp ph th t where
    "hs big_displaced (subs big_host ! 0) = Some sub" "disp sub = Some d"
    "perihelion (tree big_displaced) sub = Inr (dp, xp, ph, th, t)"
    "replicate 41 True ! 0 \<longleftrightarrow>
             xp < 1 \<and> last (ds d) > 0
             \<and> \<bar>xp - last (ds d) / last (Halo_rs (tree big_displaced) big_host)\<bar> \<ge> 0.01"
    by (elim exE conjE)
  then have "\<exists>sub d dp xp ph th t.
        hs big_displaced (subs big_host ! 0) = Some sub \<and> disp sub = Some d
        \<and> perihelion (tree big_displaced) sub = Inr (dp, xp, ph, th, t)
        \<and> (replicate 41 True ! 0 \<longleftrightarrow>
             xp < 1 \<and> last (ds d) > 0
             \<and> \<bar>xp - last (ds d) / last (Halo_rs (tree big_displaced) big_host)\<bar> \<ge> 0.01)"
    by (intro exI conjI)
  then show ?thesis using big_mask k by (intro conjI)
qed

theorem host_step_stacks_witness:
  "(\<exists>st' ra p_sp p_max p_200m p_200c.
      host_step vector_deriv_fd big_state 7 = Inr st'
      \<and> sub_counts st' = sub_counts big_state @ [41]
      \<and> rad big_host = Some ra
      \<and> b_r_sp st' = b_r_sp big_state @ [p_sp] \<and> b_r_max st' = b_r_max big_state @ [p_max]
      \<and> b_r200m st' = b_r200m big_state @ [p_200m]
      \<and> b_r200c st' = b_r200c big_state @ [p_200c]
      \<and> p_sp = host_profile (replicate 41 3) (replicate 41 True) 41 (r_sp ra) r_sp_scale
                 (bin_edges 25 0.1 2)
      \<and> p_max = host_profile (replicate 41 3) (replicate 41 True) 41 (r_max ra) r_max_scale
                 (bin_edges 25 0.1 2)
      \<and> p_200m = host_profile (replicate 41 3) (replicate 41 True) 41 (r200m ra) r200m_scale
                 (bin_edges 25 0.1 2)
      \<and> p_200c = host_profile (replicate 41 3) (replicate 41 True) 41 (r200c ra) r200c_scale
                 (bin_edges 25 0.1 2)
      \<and> density_profile p_sp
            (select (map (\<lambda>d. d / r_sp ra * r_sp_scale) (replicate 41 3)) (replicate 41 True)) 41
      \<and> density_profile p_max
            (select (map (\<lambda>d. d / r_max ra * r_max_scale) (replicate 41 3)) (replicate 41 True)) 41
      \<and> density_profile p_200m
            (select (map (\<lambda>d. d / r200m ra * r200m_scale) (replicate 41 3)) (replicate 41 True)) 41
      \<and> density_profile p_200c
            (select (map (\<lambda>d. d / r200c ra * r200c_scale) (replicate 41 3)) (replicate 41 True)) 41)
   \<and> (\<exists>st'. host_step vector_deriv_fd lone_state 7 = Inr st'
      \<and> sub_counts st' = sub_counts lone_state @ [0]
      \<and> b_r_sp st' = b_r_sp lone_state \<and> b_r_max st' = b_r_max lone_state
      \<and> b_r200m st' = b_r200m lone_state \<and> b_r200c st' = b_r200c lone_state)"
proof -
  obtain st' where ok: "host_step vector_deriv_fd big_state 7 = Inr st'"
    using big_host_step by blast
  have h: "hs big_state 7 = Some big_host"
    by (simp add: big_state_def init_state_def big_hs_def)
  from host_step_stacks[OF ok] obtain host0 st1 host ds0 msk where
    a: "hs big_state 7 = Some host0"
    and b: "displace_subs vector_deriv_fd 7 big_state (subs host0) = Inr st1"
    and c: "host_mask st1 7 = Inr (host, ds0, msk)"
    and d: "sub_counts st' = sub_counts big_state @ [length (filter id msk)]"
    and e: "if 40 < length (filter id msk)
          then \<exists>ra p_sp p_max p_200m p_200c.
             rad host = Some ra
             \<and> b_r_sp st' = b_r_sp big_state @ [p_sp] \<and> b_r_max st' = b_r_max big_state @ [p_max]
             \<and> b_r200m st' = b_r200m big_state @ [p_200m]
             \<and> b_r200c st' = b_r200c big_state @ [p_200c]
             \<and> p_sp = host_profile ds0 msk (length (filter id msk)) (r_sp ra) r_sp_scale
                        (bin_edges 25 0.1 2)
             \<and> p_max = host_profile ds0 msk (length (filter id msk)) (r_max ra) r_max_scale
                        (bin_edges 25 0.1 2)
             \<and> p_200m = host_profile ds0 msk (length (filter id msk)) (r200m ra) r200m_scale
                        (bin_edges 25 0.1 2)
             \<and> p_200c = host_profile ds0 msk (length (filter id msk)) (r200c ra) r200c_scale
                        (bin_edges 25 0.1 2)
             \<and> density_profile p_sp (select (map (\<lambda>d. d / r_sp ra * r_sp_scale) ds0) msk)
                   (length (filter id msk))
             \<and> density_profile p_max (select (map (\<lambda>d. d / r_max ra * r_max_scale) ds0) msk)
                   (length (filter id msk))
             \<and> density_profile p_200m (select (map (\<lambda>d. d / r200m ra * r200m_scale) ds0) msk)
                   (length (filter id msk))
             \<and> density_profile p_200c (select (map (\<lambda>d. d / r200c ra * r200c_scale) ds0) msk)
                   (length (filter id msk))
          else b_r_sp st' = b_r_sp big_state \<and> b_r_max st' = b_r_max big_state
             \<and> b_r200m st' = b_r200m big_state \<and> b_r200c st' = b_r200c big_state"
    by (elim exE conjE)
  have "host0 = big_host" using a h by simp
  then have "st1 = big_displaced" using b big_displace_subs by simp
  then have eqs: "host = big_host" "ds0 = replicate 41 3" "msk = replicate 41 True"
    using c big_mask by simp_all
  have cond: "(40::nat) < 41" by simp
  note d' = d[unfolded eqs big_count]
  note e' = e[unfolded eqs big_count if_P[OF cond]]
  from e' obtain ra p_sp p_max p_200m p_200c where body:
      "rad big_host = Some ra"
      "b_r_sp st' = b_r_sp big_state @ [p_sp]" "b_r_max st' = b_r_max big_state @ [p_max]"
      "b_r200m st' = b_r200m big_state @ [p_200m]"
      "b_r200c st' = b_r200c big_state @ [p_200c]"
      "p_sp = host_profile (replicate 41 3) (replicate 41 True) 41 (r_sp ra) r_sp_scale
                 (bin_edges 25 0.1 2)"
      "p_max = host_profile (replicate 41 3) (replicate 41 True) 41 (r_max ra) r_max_scale
                 (bin_edges 25 0.1 2)"
      "p_200m = host_profile (replicate 41 3) (replicate 41 True) 41 (r200m ra) r200m_scale
                 (bin_edges 25 0.1 2)"
      "p_200c = host_profile (replicate 41 3) (replicate 41 True) 41 (r200c ra) r200c_scale
                 (bin_edges 25 0.1 2)"
      "density_profile p_sp
            (select (map (\<lambda>d. d / r_sp ra * r_sp_scale) (replicate 41 3)) (replicate 41 True)) 41"
      "density_profile p_max
            (select (map (\<lambda>d. d / r_max ra * r_max_scale) (replicate 41 3)) (replicate 41 True)) 41"
      "density_profile p_200m
            (select (map (\<lambda>d. d / r200m ra * r200m_scale) (replicate 41 3)) (replicate 41 True)) 41"
      "density_profile p_200c
            (select (map (\<lambda>d. d / r200c ra * r200c_scale) (replicate 41 3)) (replicate 41 True)) 41"
    by (elim exE conjE)
  have first: "\<exists>st' ra p_sp p_max p_200m p_200c.
      host_step vector_deriv_fd big_state 7 = Inr st'
      \<and> sub_counts st' = sub_counts big_state @ [41]
      \<and> rad big_host = Some ra
      \<and> b_r_sp st' = b_r_sp big_state @ [p_sp] \<and> b_r_max st' = b_r_max big_state @ [p_max]
      \<and> b_r200m st' = b_r200m big_state @ [p_200m]
      \<and> b_r200c st' = b_r200c big_state @ [p_200c]
      \<and> p_sp = host_profile (replicate 41 3) (replicate 41 True) 41 (r_sp ra) r_sp_scale
                 (bin_edges 25 0.1 2)
      \<and> p_max = host_profile (replicate 41 3) (replicate 41 True) 41 (r_max ra) r_max_scale
                 (bin_edges 25 0.1 2)
      \<and> p_200m = host_profile (replicate 41 3) (replicate 41 True) 41 (r200m ra) r200m_scale
                 (bin_edges 25 0.1 2)
      \<and> p_200c = host_profile (replicate 41 3) (replicate 41 True) 41 (r200c ra) r200c_scale
                 (bin_edges 25 0.1 2)
      \<and> density_profile p_sp
            (select (map (\<lambda>d. d / r_sp ra * r_sp_scale) (replicate 41 3)) (replicate 41 True)) 41
      \<and> density_profile p_max
            (select (map (\<lambda>d. d / r_max ra * r_max_scale) (replicate 41 3)) (replicate 41 True)) 41
      \<and> density_profile p_200m
            (select (map (\<lambda>d. d / r200m ra * r200m_scale) (replicate 41 3)) (replicate 41 True)) 41
      \<and> density_profile p_200c
            (select (map (\<lambda>d. d / r200c ra * r200c_scale) (replicate 41 3)) (replicate 41 True)) 41"
    apply (rule exI[of _ st'])
    apply (rule exI[of _ ra])
    apply (rule exI[of _ p_sp])
    apply (rule exI[of _ p_max])
    apply (rule exI[of _ p_200m])
    apply (rule exI[of _ p_200c])
    apply (intro conjI ok d' body)
    done
  have second: "\<exists>st'. host_step vector_deriv_fd lone_state 7 = Inr st'
      \<and> sub_counts st' = sub_counts lone_state @ [0]
      \<and> b_r_sp st' = b_r_sp lone_state \<and> b_r_max st' = b_r_max lone_state
      \<and> b_r200m st' = b_r200m lone_state \<and> b_r200c st' = b_r200c lone_state"
  proof -
    have s2: "sub_counts lone_state = []" by (simp add: lone_state_def init_state_def)
    show ?thesis
      by (intro exI[of _ "lone_state\<lparr>sub_counts := [0]\<rparr>"]) (simp add: lone_host_step s2)
  qed
  show ?thesis using first second by (rule conjI)
qed

theorem host_step_profile_witness:
  "\<exists>st' ra. host_step vector_deriv_fd big_state 7 = Inr st' \<and> rad big_host = Some ra
     \<and> SUBHALO_LIM < length (filter id (replicate 41 True))
     \<and> edges st' = Some (bin_edges 25 0.1 2)
     \<and> last (b_r_sp st') ! 18
         = spec_density (select (map (\<lambda>d. d / r_sp ra * r_sp_scale) (replicate 41 3))
             (replicate 41 True)) (length (filter id (replicate 41 True))) 18
     \<and> last (b_r200c st') ! 18
         = spec_density (select (map (\<lambda>d. d / r200c ra * r200c_scale) (replicate 41 3))
             (replicate 41 True)) (length (filter id (replicate 41 True))) 18"
proof -
  obtain st' where ok: "host_step vector_deriv_fd big_state 7 = Inr st'"
    using big_host_step by blast
  have h: "hs big_state 7 = Some big_host"
    by (simp add: big_state_def init_state_def big_hs_def)
  have n: "SUBHALO_LIM < length (filter id (replicate 41 True))"
    by (simp add: SUBHALO_LIM_def)
  have k: "(18::nat) < 25" by simp
  from host_step_profile[OF ok h big_displace_subs big_mask n k] obtain ra where
    "rad big_host = Some ra" "edges st' = Some (bin_edges 25 0.1 2)"
    "last (b_r_sp st') ! 18
         = spec_density (select (map (\<lambda>d. d / r_sp ra * r_sp_scale) (replicate 41 3))
             (replicate 41 True)) (length (filter id (replicate 41 True))) 18"
    "last (b_r200c st') ! 18
         = spec_density (select (map (\<lambda>d. d / r200c ra * r200c_scale) (replicate 41 3))
             (replicate 41 True)) (length (filter id (replicate 41 True))) 18"
    by (elim exE conjE)
  then show ?thesis using ok n by (intro exI conjI)
qed

theorem aggregate_needs_qualifying_host_witness:
  "(\<exists>c st'. aggregate vector_deriv_fd big_tree big_hs [7] = Inr (c, st')
       \<and> (\<exists>n \<in> set (sub_counts st'). SUBHALO_LIM < n))
   \<and> aggregate vector_deriv_fd big_tree big_hs [] = Inl TypeError"
proof -
  obtain st' where ok: "host_step vector_deriv_fd big_state 7 = Inr st'"
    and cnt: "sub_counts st' = [41]"
    using big_host_step by blast
  have loop: "host_loop vector_deriv_fd (init_state big_tree big_hs) [7] = Inr st'"
    using ok by (simp add: big_state_def)
  have q: "\<exists>n \<in> set (sub_counts st'). SUBHALO_LIM < n"
    by (simp add: cnt SUBHALO_LIM_def)
  from aggregate_needs_qualifying_host[of vector_deriv_fd big_tree big_hs "[7]" st'] loop q
  have "\<exists>c. aggregate vector_deriv_fd big_tree big_hs [7] = Inr (c, st')"
    by blast
  then have first: "\<exists>c st'. aggregate vector_deriv_fd big_tree big_hs [7] = Inr (c, st')
       \<and> (\<exists>n \<in> set (sub_counts st'). SUBHALO_LIM < n)"
    using q by blast
  have e: "host_loop vector_deriv_fd (init_state big_tree big_hs) [] = Inr (init_state big_tree big_hs)"
    by simp
  have z: "\<forall>n \<in> set (sub_counts (init_state big_tree big_hs)). n \<le> SUBHALO_LIM"
    by (simp add: init_state_def)
  from aggregate_needs_qualifying_host[of vector_deriv_fd big_tree big_hs "[]"
      "init_state big_tree big_hs"] e z
  have second: "aggregate vector_deriv_fd big_tree big_hs [] = Inl TypeError"
    by blast
  show ?thesis using first second by (rule conjI)
qed

section \<open>The membership loop\<close>

lemma powr_333_neq_third:
  fixes x :: real
  assumes "0 < x" "x \<noteq> 1"
  shows "x powr 0.333 \<noteq> x powr (1 / 3)"
proof
  assume "x powr 0.333 = x powr (1 / 3)"
  then have "(0.333::real) = 1 / 3" using assms by (simp add: powr_inj)
  then show False by simp
qed

lemma member_step_host_r200c:
  assumes "member_step rho_c0 rad_info (hosts, h) (i, i) = Inr (hosts', h')"
  shows "\<exists>halo ra. h' i = Some halo \<and> rad halo = Some ra
     \<and> r200c ra = (m200c ra / ((rho_c0 * 200) * 10 ^ 9 * 4 * pi / 3)) powr 0.333"
  using assms
  by (auto simp: member_step_def R200c_def split: option.splits prod.splits)

text \<open>
  C8. The claim: the stored \<open>r200c\<close> is the cube root, the power \<open>1/3\<close>. The code raises
  to the power \<open>0.333\<close> (\<open>member_step_host_r200c\<close>), and the two differ whenever the base
  is positive and not 1: here for \<open>M200c = 1\<close> and \<open>rho_c(0) = 1\<close>.
\<close>

theorem stored_r200c_power:
  "\<exists>hosts' h' halo ra.
     member_step 1 (Map.empty(7 \<mapsto> (1, 1, 1, 1, 1, 1, 1))) ([], Map.empty(7 \<mapsto> ex_host)) (7, 7)
       = Inr (hosts', h')
     \<and> h' 7 = Some halo \<and> rad halo = Some ra \<and> m200c ra = 1
     \<and> r200c ra = (m200c ra / ((1 * 200) * 10 ^ 9 * 4 * pi / 3)) powr 0.333
     \<and> r200c ra \<noteq> (m200c ra / (200 * 1 * 10 ^ 9 * 4 * pi / 3)) powr (1 / 3)"
proof -
  let ?x = "1 / (200 * 1 * 10 ^ 9 * 4 * pi / 3) :: real"
  have pos: "0 < ?x" by simp
  have "3 < 200 * 1 * 10 ^ 9 * 4 * pi" using pi_ge_two by simp
  then have "?x < 1" by simp
  then have ne: "?x \<noteq> 1" by simp
  have "?x powr 0.333 \<noteq> ?x powr (1 / 3)"
    using pos ne by (rule powr_333_neq_third)
  then show ?thesis
    by (simp add: member_step_def R200c_def)
qed

end
